theory Spec2Isabelle
  imports Main "HOL-Library.Word"
begin

unbundle bit_operations_syntax

section \<open>Data model of \<open>parser_combinators.py\<close>\<close>

text \<open>
  The exceptions that can leave a parser. \<open>ParseError\<close> is the module's own class (a
  mismatch, carrying its message only) and \<open>EOFError\<close> is the builtin the primitives raise
  at the end of the input. The other constructors are the builtin exceptions Python raises
  when a lambda of the module indexes an empty list or meets a value of the wrong type.
\<close>

datatype error =
    ParseError string
  | EOFError string
  | IndexError
  | TypeError
  | AttributeError
  | OverflowError

text \<open>
  The values a cursor's \<open>result\<close> holds: \<open>None\<close>, integers, text, lists and tuples.
  Python text is modelled by \<open>string\<close>, that is by code points below 256.
\<close>

datatype val =
    VNone
  | VInt int
  | VStr string
  | VList "val list"
  | VTuple "val list"

text \<open>The input buffer: a \<open>str\<close> for the character parsers, \<open>bytes\<close> for the bit parsers.\<close>

datatype source = Text string | Bytes "8 word list"

record ParserState =
  source :: source
  index :: int
  result :: val

text \<open>
  A raised exception is \<open>Inl\<close>, a returned cursor is \<open>Inr\<close>; \<open>None\<close> is a call that
  never returns (the \<open>while True\<close> loops of \<open>many\<close>, \<open>many1\<close> and \<open>separated_by\<close>
  have no exit when the repeated parser keeps succeeding).
\<close>

type_synonym outcome = "error + ParserState"
type_synonym parser = "ParserState \<Rightarrow> outcome option"

section \<open>Python builtins used by the module\<close>

text \<open>
  The subscript \<open>xs[i]\<close>: an index in \<open>-len .. -1\<close> is taken from the end of the list;
  \<open>None\<close> stands for the \<open>IndexError\<close> of every other index outside \<open>0 .. len-1\<close>.
\<close>

definition py_getitem :: "'a list \<Rightarrow> int \<Rightarrow> 'a option" where
  "py_getitem xs i =
     (if 0 \<le> i \<and> i < int (length xs) then Some (xs ! nat i)
      else if - int (length xs) \<le> i \<and> i < 0 then Some (xs ! nat (int (length xs) + i))
      else None)"

text \<open>\<open>xs[i:]\<close>: a negative start counts from the end and is clamped at the front.\<close>

definition py_slice_from :: "'a list \<Rightarrow> int \<Rightarrow> 'a list" where
  "py_slice_from xs i = (if i < 0 then drop (nat (int (length xs) + i)) xs else drop (nat i) xs)"

definition source_len :: "source \<Rightarrow> nat" where
  "source_len src = (case src of Text t \<Rightarrow> length t | Bytes bs \<Rightarrow> length bs)"

definition digit_char :: "nat \<Rightarrow> char" where
  "digit_char d = char_of (48 + d)"

fun str_nat :: "nat \<Rightarrow> string" where
  "str_nat n = (if n < 10 then [digit_char n] else str_nat (n div 10) @ [digit_char (n mod 10)])"

declare str_nat.simps [simp del]

text \<open>\<open>str(i)\<close> of an integer, as the f-strings of the error messages format an index.\<close>

definition str_int :: "int \<Rightarrow> string" where
  "str_int i = (if i < 0 then CHR ''-'' # str_nat (nat (- i)) else str_nat (nat i))"

text \<open>\<open>chr(i)\<close> for \<open>0 \<le> i < 256\<close>, the only arguments the module passes.\<close>

definition chr :: "int \<Rightarrow> char" where
  "chr i = char_of i"

text \<open>\<open>str.isalpha\<close> and \<open>str.isdigit\<close> of one character, for code points below 256.\<close>

definition isalpha :: "char \<Rightarrow> bool" where
  "isalpha c =
     (let n = (of_char c :: nat)
      in (65 \<le> n \<and> n \<le> 90) \<or> (97 \<le> n \<and> n \<le> 122) \<or> n = 170 \<or> n = 181 \<or> n = 186 \<or>
         (192 \<le> n \<and> n \<le> 214) \<or> (216 \<le> n \<and> n \<le> 246) \<or> (248 \<le> n \<and> n \<le> 255))"

definition isdigit :: "char \<Rightarrow> bool" where
  "isdigit c =
     (let n = (of_char c :: nat)
      in (48 \<le> n \<and> n \<le> 57) \<or> n = 178 \<or> n = 179 \<or> n = 185)"

text \<open>\<open>s.encode('utf-8')\<close>; iterating the bytes object yields integers.\<close>

definition utf8_encode :: "string \<Rightarrow> int list" where
  "utf8_encode s =
     concat (map (\<lambda>c. let n = (of_char c :: int)
                       in if n < 128 then [n] else [192 + n div 64, 128 + n mod 64]) s)"

text \<open>\<open>n.to_bytes(4, 'big')\<close>: raises \<open>OverflowError\<close> outside \<open>0 \<le> n < 2^32\<close>.\<close>

definition to_bytes4 :: "int \<Rightarrow> error + int list" where
  "to_bytes4 n =
     (if n < 0 \<or> 2 ^ 32 \<le> n then Inl OverflowError
      else Inr [n div 2 ^ 24 mod 256, n div 2 ^ 16 mod 256, n div 2 ^ 8 mod 256, n mod 256])"

text \<open>\<open>sep.join(parts)\<close> on a list of strings.\<close>

fun join :: "string \<Rightarrow> string list \<Rightarrow> string" where
  "join sep [] = []"
| "join sep [x] = x"
| "join sep (x # y # ys) = x @ sep @ join sep (y # ys)"

text \<open>The list of integers inside a Python list value, when all its elements are integers.\<close>

fun int_of_val :: "val \<Rightarrow> int option" where
  "int_of_val (VInt i) = Some i"
| "int_of_val _ = None"

fun str_of_val :: "val \<Rightarrow> string option" where
  "str_of_val (VStr s) = Some s"
| "str_of_val _ = None"

definition ints_of_val :: "val \<Rightarrow> int list option" where
  "ints_of_val v = (case v of VList xs \<Rightarrow> those (map int_of_val xs) | _ \<Rightarrow> None)"

definition strs_of_val :: "val \<Rightarrow> string list option" where
  "strs_of_val v = (case v of VList xs \<Rightarrow> those (map str_of_val xs) | _ \<Rightarrow> None)"

section \<open>The cursor: class \<open>ParserState\<close>\<close>

definition target :: "ParserState \<Rightarrow> source" where
  "target s =
     (case source s of
        Text t \<Rightarrow> Text (py_slice_from t (index s))
      | Bytes bs \<Rightarrow> Bytes (py_slice_from bs (index s)))"

definition update :: "ParserState \<Rightarrow> int \<Rightarrow> val \<Rightarrow> ParserState" where
  "update s i r = \<lparr>source = source s, index = i, result = r\<rparr>"

text \<open>
  The same class on an explicit object store, to speak about aliasing: the store is the
  list of the cursor objects allocated so far, an object's address is its position, and
  the constructor call \<open>ParserState(...)\<close> allocates. \<open>update\<close> is the only method that
  builds a cursor; no method of the module assigns to a field after \<open>__init__\<close>.
\<close>

type_synonym store = "ParserState list"

definition new_ParserState :: "store \<Rightarrow> source \<Rightarrow> int \<Rightarrow> val \<Rightarrow> store \<times> nat" where
  "new_ParserState h src i r = (h @ [\<lparr>source = src, index = i, result = r\<rparr>], length h)"

definition update_obj :: "store \<Rightarrow> nat \<Rightarrow> int \<Rightarrow> val \<Rightarrow> store \<times> nat" where
  "update_obj h self i r = new_ParserState h (source (h ! self)) i r"

section \<open>Class \<open>Parser\<close>\<close>

text \<open>
  What \<open>parse\<close> hands back is whatever the wrapped function returns. Python does not type
  it, so the model tags it: a cursor object, or a bare result value.
\<close>

datatype pyobj = Cursor ParserState | Value val

definition parse :: "parser \<Rightarrow> source \<Rightarrow> (error + pyobj) option" where
  "parse fn tgt =
     (let initial_state = \<lparr>source = tgt, index = 0, result = VNone\<rparr>
      in map_option (map_sum id Cursor) (fn initial_state))"

definition chain :: "parser \<Rightarrow> (val \<Rightarrow> error + parser) \<Rightarrow> parser" where
  "chain self chain_fn parser_state =
     (case self parser_state of
        None \<Rightarrow> None
      | Some (Inl e) \<Rightarrow> Some (Inl e)
      | Some (Inr next_state) \<Rightarrow>
          (case chain_fn (result next_state) of
             Inl e \<Rightarrow> Some (Inl e)
           | Inr next_parser \<Rightarrow> next_parser next_state))"

definition map_p :: "parser \<Rightarrow> (val \<Rightarrow> error + val) \<Rightarrow> parser" where
  "map_p self map_fn parser_state =
     (case self parser_state of
        None \<Rightarrow> None
      | Some (Inl e) \<Rightarrow> Some (Inl e)
      | Some (Inr next_state) \<Rightarrow>
          (case map_fn (result next_state) of
             Inl e \<Rightarrow> Some (Inl e)
           | Inr v \<Rightarrow> Some (Inr (update next_state (index next_state) v))))"

definition error_map :: "parser \<Rightarrow> (string \<Rightarrow> int \<Rightarrow> error + val) \<Rightarrow> parser" where
  "error_map self error_map_fn parser_state =
     (case self parser_state of
        None \<Rightarrow> None
      | Some (Inl (ParseError msg)) \<Rightarrow>
          (case error_map_fn msg (index parser_state) of
             Inl e \<Rightarrow> Some (Inl e)
           | Inr v \<Rightarrow> Some (Inr (update parser_state (index parser_state) v)))
      | Some (Inl e) \<Rightarrow> Some (Inl e)
      | Some (Inr next_state) \<Rightarrow> Some (Inr next_state))"

section \<open>Character primitives\<close>

definition eof_message :: string where
  "eof_message = ''End of input reached, unable to match further.''"

definition string_p :: "string \<Rightarrow> parser" where
  "string_p tgt parser_state =
     (if length tgt > source_len (target parser_state) then Some (Inl (EOFError eof_message))
      else case target parser_state of
        Bytes bs \<Rightarrow> Some (Inl TypeError)
      | Text t \<Rightarrow>
          if take (length tgt) t = tgt
          then Some (Inr (update parser_state (index parser_state + int (length tgt)) (VStr tgt)))
          else Some (Inl (ParseError
                 (''\"'' @ take (length tgt) t @ ''\" at index '' @ str_int (index parser_state)
                    @ '' does not start with \"'' @ tgt @ ''\".''))))"

definition letter :: parser where
  "letter parser_state =
     (if source_len (target parser_state) = 0 then Some (Inl (EOFError eof_message))
      else case target parser_state of
        Bytes bs \<Rightarrow> Some (Inl AttributeError)
      | Text t \<Rightarrow>
          if isalpha (hd t)
          then Some (Inr (update parser_state (index parser_state + 1) (VStr [hd t])))
          else Some (Inl (ParseError
                 (''Couldn't match letters at index '' @ str_int (index parser_state) @ ''.''))))"

definition digit :: parser where
  "digit parser_state =
     (if source_len (target parser_state) = 0 then Some (Inl (EOFError eof_message))
      else case target parser_state of
        Bytes bs \<Rightarrow> Some (Inl AttributeError)
      | Text t \<Rightarrow>
          if isdigit (hd t)
          then Some (Inr (update parser_state (index parser_state + 1) (VStr [hd t])))
          else Some (Inl (ParseError
                 (''Couldn't match digits at index '' @ str_int (index parser_state) @ ''.''))))"

section \<open>Structural combinators\<close>

text \<open>The \<open>for\<close> loop of \<open>sequence_of\<close>, with the cursor and the list of results threaded.\<close>

fun sequence_loop :: "parser list \<Rightarrow> ParserState \<Rightarrow> val list \<Rightarrow> outcome option" where
  "sequence_loop [] parser_state results =
     Some (Inr (update parser_state (index parser_state) (VList results)))"
| "sequence_loop (p # ps) parser_state results =
     (case p parser_state of
        None \<Rightarrow> None
      | Some (Inl e) \<Rightarrow> Some (Inl e)
      | Some (Inr next_state) \<Rightarrow> sequence_loop ps next_state (results @ [result next_state]))"

definition sequence_of :: "parser list \<Rightarrow> parser" where
  "sequence_of parsers parser_state = sequence_loop parsers parser_state []"

text \<open>
  \<open>choice\<close>: on a \<open>ParseError\<close> the variable \<open>parser_state\<close> is not reassigned, so the next
  alternative starts from the cursor the choice was given.
\<close>

fun choice :: "parser list \<Rightarrow> parser" where
  "choice [] parser_state =
     Some (Inl (ParseError
       (''Unable to match any parsers at index '' @ str_int (index parser_state) @ ''.'')))"
| "choice (p # ps) parser_state =
     (case p parser_state of
        None \<Rightarrow> None
      | Some (Inl (ParseError msg)) \<Rightarrow> choice ps parser_state
      | Some (Inl e) \<Rightarrow> Some (Inl e)
      | Some (Inr next_state) \<Rightarrow> Some (Inr next_state))"

text \<open>
  The \<open>while True\<close> loop shared by \<open>many\<close> and \<open>many1\<close>: it catches \<open>ParseError\<close> and
  \<open>EOFError\<close> only.
\<close>

partial_function (option) many_loop :: "parser \<Rightarrow> ParserState \<Rightarrow> val list \<Rightarrow> outcome option"
where
  "many_loop p parser_state results =
     (case p parser_state of
        None \<Rightarrow> None
      | Some r \<Rightarrow>
          (case r of
             Inr next_state \<Rightarrow> many_loop p next_state (results @ [result next_state])
           | Inl e \<Rightarrow>
               (case e of
                  ParseError msg \<Rightarrow>
                    Some (Inr (update parser_state (index parser_state) (VList results)))
                | EOFError msg \<Rightarrow>
                    Some (Inr (update parser_state (index parser_state) (VList results)))
                | _ \<Rightarrow> Some (Inl e))))"

declare many_loop.simps [code]

text \<open>
  \<open>many\<close>: the first attempt sits under a bare \<open>except:\<close>, which catches every exception
  and returns the cursor it was given.
\<close>

definition many :: "parser \<Rightarrow> parser" where
  "many p parser_state =
     (case p parser_state of
        None \<Rightarrow> None
      | Some (Inl e) \<Rightarrow> Some (Inr parser_state)
      | Some (Inr next_state) \<Rightarrow> many_loop p next_state [result next_state])"

definition many1 :: "parser \<Rightarrow> parser" where
  "many1 p parser_state =
     (case p parser_state of
        None \<Rightarrow> None
      | Some (Inl e) \<Rightarrow> Some (Inl e)
      | Some (Inr next_state) \<Rightarrow> many_loop p next_state [result next_state])"

definition join_result :: "val \<Rightarrow> error + val" where
  "join_result v = (case strs_of_val v of None \<Rightarrow> Inl TypeError | Some ss \<Rightarrow> Inr (VStr (join [] ss)))"

definition letters :: parser where
  "letters = map_p (many1 letter) join_result"

definition digits :: parser where
  "digits = map_p (many1 digit) join_result"

definition lazy :: "(unit \<Rightarrow> parser) \<Rightarrow> parser" where
  "lazy parser_thunk parser_state = (parser_thunk ()) parser_state"

definition second_result :: "val \<Rightarrow> error + val" where
  "second_result v =
     (case v of
        VList xs \<Rightarrow> (case py_getitem xs 1 of None \<Rightarrow> Inl IndexError | Some x \<Rightarrow> Inr x)
      | _ \<Rightarrow> Inl TypeError)"

definition between :: "parser \<Rightarrow> parser \<Rightarrow> parser \<Rightarrow> parser" where
  "between left_parser right_parser content_parser =
     map_p (sequence_of [left_parser, content_parser, right_parser]) second_result"

text \<open>The \<open>while True\<close> loop of \<open>separated_by\<close>: both \<open>try\<close> blocks catch \<open>ParseError\<close> only.\<close>

partial_function (option) separated_loop ::
  "parser \<Rightarrow> parser \<Rightarrow> ParserState \<Rightarrow> val list \<Rightarrow> outcome option"
where
  "separated_loop separator_parser value_parser parser_state results =
     (case value_parser parser_state of
        None \<Rightarrow> None
      | Some r \<Rightarrow>
          (case r of
             Inl e \<Rightarrow>
               (case e of
                  ParseError msg \<Rightarrow>
                    Some (Inr (update parser_state (index parser_state) (VList results)))
                | _ \<Rightarrow> Some (Inl e))
           | Inr value_state \<Rightarrow>
               (case separator_parser value_state of
                  None \<Rightarrow> None
                | Some r' \<Rightarrow>
                    (case r' of
                       Inl e \<Rightarrow>
                         (case e of
                            ParseError msg \<Rightarrow>
                              Some (Inr (update value_state (index value_state)
                                           (VList (results @ [result value_state]))))
                          | _ \<Rightarrow> Some (Inl e))
                     | Inr separator_state \<Rightarrow>
                         separated_loop separator_parser value_parser separator_state
                           (results @ [result value_state])))))"

declare separated_loop.simps [code]

definition separated_by :: "parser \<Rightarrow> parser \<Rightarrow> parser" where
  "separated_by separator_parser value_parser parser_state =
     separated_loop separator_parser value_parser parser_state []"

definition succeed :: "val \<Rightarrow> parser" where
  "succeed v parser_state = Some (Inr (update parser_state (index parser_state) v))"

definition fail :: "string \<Rightarrow> parser" where
  "fail error_message parser_state = Some (Inl (ParseError error_message))"

section \<open>Bit primitives\<close>

text \<open>
  The three bit parsers share their first lines: the byte holding bit \<open>index\<close>, then the
  bit itself, most significant first. A \<open>str\<close> source passes the length check and then
  fails in \<open>byte & ...\<close>.

  \<open>math.floor(index / 8)\<close> divides in floating point. For \<open>|index| < 2^53\<close> the quotient is
  exact and its floor is \<open>index div 8\<close>, which is what the model computes. From \<open>2^53\<close> on
  the quotient is rounded to 53 bits (the byte offset can be off by one) and beyond the
  float range the division raises \<open>OverflowError\<close>; the model does not follow the code
  there, so a statement about \<open>read_bit\<close> speaks for the code only where every index it
  reads is below \<open>2^53\<close>, which a byte buffer shorter than \<open>2^50\<close> bytes guarantees for
  every read that succeeds.
\<close>

definition read_bit :: "ParserState \<Rightarrow> error + int" where
  "read_bit parser_state =
     (let byte_offset = index parser_state div 8
      in if byte_offset \<ge> int (source_len (source parser_state))
         then Inl (EOFError eof_message)
         else
           let bit_offset = nat (7 - index parser_state mod 8)
           in case source parser_state of
                Text t \<Rightarrow>
                  (case py_getitem t byte_offset of
                     None \<Rightarrow> Inl IndexError
                   | Some c \<Rightarrow> Inl TypeError)
              | Bytes bs \<Rightarrow>
                  (case py_getitem bs byte_offset of
                     None \<Rightarrow> Inl IndexError
                   | Some byte \<Rightarrow>
                       Inr (drop_bit bit_offset (Word.uint byte AND push_bit bit_offset 1))))"

text \<open>
  The bit stream the layout describes: bit \<open>j\<close> of a byte buffer is bit \<open>7 - j mod 8\<close> of
  byte \<open>j div 8\<close>, most significant first. \<open>read_bit\<close> is compared with it below.
\<close>

definition bit_at :: "8 word list \<Rightarrow> int \<Rightarrow> int" where
  "bit_at bs j = of_bool (bit (bs ! nat (j div 8)) (nat (7 - j mod 8)))"

text \<open>The unsigned big-endian value of the \<open>n\<close> bits that start at bit \<open>j\<close>.\<close>

definition bits_value :: "8 word list \<Rightarrow> int \<Rightarrow> nat \<Rightarrow> int" where
  "bits_value bs j n = (\<Sum>i<n. bit_at bs (j + int i) * 2 ^ (n - 1 - i))"

definition bit_p :: parser where
  "bit_p parser_state =
     (case read_bit parser_state of
        Inl e \<Rightarrow> Some (Inl e)
      | Inr b \<Rightarrow> Some (Inr (update parser_state (index parser_state + 1) (VInt b))))"

definition zero_p :: parser where
  "zero_p parser_state =
     (case read_bit parser_state of
        Inl e \<Rightarrow> Some (Inl e)
      | Inr b \<Rightarrow>
          if b \<noteq> 0
          then Some (Inl (ParseError
                 (''Expected a zero, but got a one at index '' @ str_int (index parser_state))))
          else Some (Inr (update parser_state (index parser_state + 1) (VInt b))))"

definition one_p :: parser where
  "one_p parser_state =
     (case read_bit parser_state of
        Inl e \<Rightarrow> Some (Inl e)
      | Inr b \<Rightarrow>
          if b \<noteq> 1
          then Some (Inl (ParseError
                 (''Expected a one, but got a zero at index '' @ str_int (index parser_state))))
          else Some (Inr (update parser_state (index parser_state + 1) (VInt b))))"

section \<open>Numeric decoders\<close>

text \<open>
  \<open>sum(map(lambda ix: ix[1] * 2 ** (n - (ix[0] + 1)), enumerate(bits)))\<close>. The list
  comes from \<open>sequence_of([bit] * n)\<close> and has \<open>n\<close> elements, so the exponent is never
  negative.
\<close>

definition weighted_sum :: "nat \<Rightarrow> int list \<Rightarrow> int" where
  "weighted_sum n bits = sum_list (map (\<lambda>(i, b). b * 2 ^ (n - (i + 1))) (enumerate 0 bits))"

definition uint_value :: "nat \<Rightarrow> val \<Rightarrow> error + val" where
  "uint_value n v =
     (case ints_of_val v of
        None \<Rightarrow> Inl TypeError
      | Some bits \<Rightarrow> Inr (VInt (weighted_sum n bits)))"

definition uint_p :: "nat \<Rightarrow> parser" where
  "uint_p n = map_p (sequence_of (replicate n bit_p)) (uint_value n)"

definition int_value :: "nat \<Rightarrow> val \<Rightarrow> error + val" where
  "int_value n v =
     (case ints_of_val v of
        None \<Rightarrow> Inl TypeError
      | Some bits \<Rightarrow>
          (case py_getitem bits 0 of
             None \<Rightarrow> Inl IndexError
           | Some b0 \<Rightarrow>
               if b0 = 0 then Inr (VInt (weighted_sum n bits))
               else Inr (VInt (- (1 + weighted_sum n (map (\<lambda>b. if b = 1 then 0 else 1) bits))))))"

definition int_p :: "nat \<Rightarrow> parser" where
  "int_p n = map_p (sequence_of (replicate n bit_p)) (int_value n)"

definition expect_byte :: "int \<Rightarrow> val \<Rightarrow> error + parser" where
  "expect_byte b res =
     (if res = VInt b then Inr (succeed (VInt b))
      else case res of
        VInt r \<Rightarrow> Inr (fail (''Expected '' @ [chr b] @ '', but got '' @ [chr r] @ ''.''))
      | _ \<Rightarrow> Inl TypeError)"

definition raw_string :: "string \<Rightarrow> parser" where
  "raw_string src parser_state =
     (let string_source = utf8_encode src
      in sequence_of (map (\<lambda>b. chain (uint_p 8) (expect_byte b)) string_source) parser_state)"

section \<open>The IPv4 header grammar\<close>

definition tag :: "string \<Rightarrow> val \<Rightarrow> error + val" where
  "tag label v = Inr (VTuple [VStr label, v])"

definition dotted_quad :: "string \<Rightarrow> val \<Rightarrow> error + val" where
  "dotted_quad label v =
     (case v of
        VInt n \<Rightarrow>
          (case to_bytes4 n of
             Inl e \<Rightarrow> Inl e
           | Inr bs \<Rightarrow> tag label (VStr (join ''.'' (map str_int bs))))
      | _ \<Rightarrow> Inl AttributeError)"

definition append_options :: "val list \<Rightarrow> val \<Rightarrow> error + parser" where
  "append_options res remaining = Inr (succeed (VList (res @ [VStr ''Options'', remaining])))"

text \<open>
  The lambda given to the outer \<open>chain\<close>: \<open>result[1][1] > 5\<close> selects the branch;
  \<open>list(tag('Options', remaining))\<close> is the two-element list of the tuple's components.
\<close>

definition options_step :: "val \<Rightarrow> error + parser" where
  "options_step res =
     (case res of
        VList flds \<Rightarrow>
          (case py_getitem flds 1 of
             None \<Rightarrow> Inl IndexError
           | Some f \<Rightarrow>
               (case f of
                  VTuple comps \<Rightarrow>
                    (case py_getitem comps 1 of
                       None \<Rightarrow> Inl IndexError
                     | Some ihl \<Rightarrow>
                         (case ihl of
                            VInt k \<Rightarrow>
                              if k > 5
                              then Inr (chain (sequence_of (replicate 8 (uint_p 8)))
                                          (append_options flds))
                              else Inr (succeed res)
                          | _ \<Rightarrow> Inl TypeError))
                | _ \<Rightarrow> Inl TypeError))
      | _ \<Rightarrow> Inl TypeError)"

definition ipv4_fields :: "parser list" where
  "ipv4_fields =
     [map_p (uint_p 4) (tag ''Version''),
      map_p (uint_p 4) (tag ''IHL''),
      map_p (uint_p 6) (tag ''DSCP''),
      map_p (uint_p 2) (tag ''ECN''),
      map_p (uint_p 16) (tag ''Total Length''),
      map_p (uint_p 16) (tag ''Identification''),
      map_p (uint_p 3) (tag ''Flags''),
      map_p (uint_p 13) (tag ''Fragment Offset''),
      map_p (uint_p 8) (tag ''TTL''),
      map_p (uint_p 8) (tag ''Protocol''),
      map_p (uint_p 16) (tag ''Header Checksum''),
      map_p (uint_p 32) (dotted_quad ''Source IP''),
      map_p (uint_p 32) (dotted_quad ''Destination IP'')]"

definition ipv4_header_parser :: parser where
  "ipv4_header_parser = chain (sequence_of ipv4_fields) options_step"

section \<open>Cursor positions\<close>

text \<open>A parser never moves the cursor backwards: every cursor it returns is at or after the one it was given.\<close>

definition index_monotone :: "parser \<Rightarrow> bool" where
  "index_monotone p \<longleftrightarrow> (\<forall>s s'. p s = Some (Inr s') \<longrightarrow> index s \<le> index s')"

section \<open>Sample headers\<close>

text \<open>
  Test data: a 20-byte IPv4 header with IHL = 5, and the same header with IHL = 6 followed
  by eight option bytes.
\<close>

definition header_ihl5 :: "8 word list" where
  "header_ihl5 =
     [0x45, 0x00, 0x00, 0x54, 0x12, 0x34, 0x40, 0x00, 0x40, 0x01, 0xAB, 0xCD,
      0xC0, 0xA8, 0x00, 0x01, 0x0A, 0x00, 0x00, 0xFF]"

definition header_ihl6 :: "8 word list" where
  "header_ihl6 = 0x46 # tl header_ihl5 @ [1, 2, 3, 4, 5, 6, 7, 8]"

section \<open>Reading bits\<close>

lemma drop_and_push: "drop_bit k ((x::int) AND push_bit k 1) = of_bool (bit x k)"
  by (rule bit_eqI) (auto simp: bit_simps)

lemma read_bit_Bytes:
  assumes "source s = Bytes bs" "0 \<le> index s" "index s < 8 * int (length bs)"
  shows "read_bit s = Inr (bit_at bs (index s))"
proof -
  have a: "index s div 8 < int (length bs)" using assms by linarith
  have b: "0 \<le> index s div 8" using assms by simp
  have g: "py_getitem bs (index s div 8) = Some (bs ! nat (index s div 8))"
    using a b by (simp add: py_getitem_def)
  have d: "drop_bit k (Word.uint w AND push_bit k 1) = of_bool (bit w k)" for k and w :: "8 word"
    unfolding drop_and_push by (auto simp: bit_uint_iff dest: bit_imp_le_length)
  have "read_bit s = Inr (drop_bit (nat (7 - index s mod 8)) (Word.uint (bs ! nat (index s div 8)) AND push_bit (nat (7 - index s mod 8)) 1))"
    using a assms(1) by (simp add: read_bit_def Let_def source_len_def g del: drop_bit_and push_bit_of_1)
  then show ?thesis
    by (simp only: d bit_at_def)
qed

lemma read_bit_eof:
  assumes "8 * int (source_len (source s)) \<le> index s"
  shows "read_bit s = Inl (EOFError eof_message)"
proof -
  have "int (source_len (source s)) \<le> index s div 8" using assms by linarith
  then show ?thesis by (simp add: read_bit_def Let_def)
qed

lemma sequence_loop_bits:
  assumes "source s = Bytes bs" "0 \<le> index s" "index s + int n \<le> 8 * int (length bs)"
  shows "sequence_loop (replicate n bit_p) s rs =
         Some (Inr \<lparr>source = Bytes bs, index = index s + int n,
                    result = VList (rs @ map (\<lambda>i. VInt (bit_at bs (index s + int i))) [0..<n])\<rparr>)"
  using assms
proof (induction n arbitrary: s rs)
  case 0
  then show ?case by (simp add: update_def)
next
  case (Suc n)
  let ?s' = "update s (index s + 1) (VInt (bit_at bs (index s)))"
  have rb: "read_bit s = Inr (bit_at bs (index s))"
    using Suc.prems by (intro read_bit_Bytes) auto
  have step: "bit_p s = Some (Inr ?s')" by (simp add: bit_p_def rb)
  have ih: "sequence_loop (replicate n bit_p) ?s' (rs @ [VInt (bit_at bs (index s))]) =
      Some (Inr \<lparr>source = Bytes bs, index = index ?s' + int n,
                    result = VList ((rs @ [VInt (bit_at bs (index s))]) @ map (\<lambda>i. VInt (bit_at bs (index ?s' + int i))) [0..<n])\<rparr>)"
    using Suc.prems by (intro Suc.IH) (auto simp: update_def)
  have m: "map (\<lambda>i. VInt (bit_at bs (index s + int i))) [0..<Suc n] =
        VInt (bit_at bs (index s)) # map (\<lambda>i. VInt (bit_at bs (index s + 1 + int i))) [0..<n]"
  proof -
    have "[0..<Suc n] = 0 # map Suc [0..<n]"
      by (simp add: upt_conv_Cons map_Suc_upt del: upt_Suc)
    then show ?thesis by (simp add: comp_def add.assoc del: upt_Suc)
  qed
  show ?case
    unfolding m using ih by (simp add: step update_def add.assoc)
qed


lemma those_map_Some: "those (map (\<lambda>x. Some (h x)) xs) = Some (map h xs)"
  by (induction xs) simp_all

lemma ints_of_val_VInt: "ints_of_val (VList (map (\<lambda>i. VInt (g i)) xs)) = Some (map g xs)"
  using those_map_Some [of g xs] by (simp add: ints_of_val_def comp_def)

lemma enumerate_map_upt: "enumerate 0 (map f [0..<n]) = map (\<lambda>i. (i, f i)) [0..<n]"
  by (simp add: enumerate_eq_zip zip_map2 zip_same_conv_map comp_def)

lemma weighted_sum_upt:
  "weighted_sum n (map f [0..<n]) = (\<Sum>i<n. f i * 2 ^ (n - 1 - i))"
  by (simp add: weighted_sum_def enumerate_map_upt comp_def interv_sum_list_conv_sum_set_nat
      lessThan_atLeast0)

lemma bits_value_weighted:
  "weighted_sum n (map (\<lambda>i. bit_at bs (j + int i)) [0..<n]) = bits_value bs j n"
  by (simp add: weighted_sum_upt bits_value_def)

lemma bit_at_cases: "bit_at bs j = 0 \<or> bit_at bs j = 1"
  by (simp add: bit_at_def)

lemma bits_value_Suc:
  "bits_value bs j (Suc n) = 2 * bits_value bs j n + bit_at bs (j + int n)"
proof -
  have "(\<Sum>i<n. bit_at bs (j + int i) * 2 ^ (Suc n - 1 - i)) =
        (\<Sum>i<n. 2 * (bit_at bs (j + int i) * 2 ^ (n - 1 - i)))"
  proof (rule sum.cong)
    fix i assume "i \<in> {..<n}"
    then have "Suc n - 1 - i = Suc (n - 1 - i)" by auto
    then show "bit_at bs (j + int i) * 2 ^ (Suc n - 1 - i) = 2 * (bit_at bs (j + int i) * 2 ^ (n - 1 - i))"
      by simp
  qed simp
  then show ?thesis
    by (simp add: bits_value_def sum_distrib_left)
qed

lemma bits_value_bounds: "0 \<le> bits_value bs j n \<and> bits_value bs j n < 2 ^ n"
proof (induction n)
  case 0
  show ?case by (simp add: bits_value_def)
next
  case (Suc n)
  from bit_at_cases [of bs "j + int n"] Suc show ?case
    by (auto simp: bits_value_Suc)
qed

lemma bits_value_Suc_shift:
  "bits_value bs j (Suc n) = bit_at bs j * 2 ^ n + bits_value bs (j + 1) n"
proof -
  have "bits_value bs j (Suc n) =
        bit_at bs j * 2 ^ n + (\<Sum>i<n. bit_at bs (j + int (Suc i)) * 2 ^ (n - Suc i))"
    by (simp add: bits_value_def sum.lessThan_Suc_shift del: sum.lessThan_Suc of_nat_Suc)
  moreover have "(\<Sum>i<n. bit_at bs (j + int (Suc i)) * 2 ^ (n - Suc i)) = bits_value bs (j + 1) n"
    unfolding bits_value_def by (rule sum.cong) (simp_all add: algebra_simps)
  ultimately show ?thesis by simp
qed

lemma uint_p_bits:
  assumes "source s = Bytes bs" "0 \<le> index s" "index s + int n \<le> 8 * int (length bs)"
  shows "uint_p n s =
         Some (Inr \<lparr>source = Bytes bs, index = index s + int n,
                    result = VInt (bits_value bs (index s) n)\<rparr>)"
  using sequence_loop_bits [OF assms, of "[]"]
  by (simp add: uint_p_def map_p_def sequence_of_def uint_value_def ints_of_val_VInt
      bits_value_weighted update_def)

lemma sequence_loop_bits_eof:
  assumes "source s = Bytes bs" "0 \<le> index s" "8 * int (length bs) < index s + int n" "0 < n"
  shows "sequence_loop (replicate n bit_p) s rs = Some (Inl (EOFError eof_message))"
  using assms
proof (induction n arbitrary: s rs)
  case 0
  then show ?case
    by simp
next
  case (Suc n)
  show ?case
  proof (cases "index s < 8 * int (length bs)")
    case True
    let ?s' = "update s (index s + 1) (VInt (bit_at bs (index s)))"
    have "read_bit s = Inr (bit_at bs (index s))"
      using Suc.prems True by (intro read_bit_Bytes) auto
    then have step: "bit_p s = Some (Inr ?s')"
      by (simp add: bit_p_def)
    have "sequence_loop (replicate n bit_p) ?s' (rs @ [VInt (bit_at bs (index s))]) =
          Some (Inl (EOFError eof_message))"
      using Suc.prems True by (intro Suc.IH) (auto simp: update_def)
    then show ?thesis
      by (simp add: step update_def)
  next
    case False
    then have "read_bit s = Inl (EOFError eof_message)"
      using Suc.prems(1) by (intro read_bit_eof) (simp add: source_len_def)
    then show ?thesis
      by (simp add: bit_p_def)
  qed
qed

lemma weighted_Suc:
  fixes g :: "nat \<Rightarrow> int"
  shows "(\<Sum>i<Suc n. g i * 2 ^ (Suc n - 1 - i)) = 2 * (\<Sum>i<n. g i * 2 ^ (n - 1 - i)) + g n"
proof -
  have "(\<Sum>i<n. g i * 2 ^ (Suc n - 1 - i)) = (\<Sum>i<n. 2 * (g i * 2 ^ (n - 1 - i)))"
  proof (rule sum.cong)
    fix i assume "i \<in> {..<n}"
    then have "Suc n - 1 - i = Suc (n - 1 - i)" by auto
    then show "g i * 2 ^ (Suc n - 1 - i) = 2 * (g i * 2 ^ (n - 1 - i))"
      by simp
  qed simp
  then show ?thesis
    by (simp add: sum_distrib_left)
qed

lemma inverted_bits_value:
  "(\<Sum>i<n. (if bit_at bs (j + int i) = 1 then 0 else 1) * 2 ^ (n - 1 - i)) =
     2 ^ n - 1 - bits_value bs j n"
proof (induction n)
  case 0
  show ?case by (simp add: bits_value_def)
next
  case (Suc n)
  have "(\<Sum>i<Suc n. (if bit_at bs (j + int i) = 1 then 0 else 1) * 2 ^ (Suc n - 1 - i)) =
        2 * (2 ^ n - 1 - bits_value bs j n) + (if bit_at bs (j + int n) = 1 then 0 else 1)"
    unfolding weighted_Suc [of "\<lambda>i. if bit_at bs (j + int i) = 1 then 0 else 1" n] Suc.IH ..
  with bit_at_cases [of bs "j + int n"] show ?case
    by (auto simp: bits_value_Suc)
qed

lemma inverted_weighted:
  "weighted_sum n (map (\<lambda>b. if b = 1 then 0 else 1) (map (\<lambda>i. bit_at bs (j + int i)) [0..<n])) =
     2 ^ n - 1 - bits_value bs j n"
proof -
  have "map (\<lambda>b. if b = 1 then 0 else (1::int)) (map (\<lambda>i. bit_at bs (j + int i)) [0..<n]) =
        map (\<lambda>i. if bit_at bs (j + int i) = 1 then 0 else 1) [0..<n]"
    by (simp add: comp_def)
  then show ?thesis
    by (simp only: weighted_sum_upt inverted_bits_value)
qed

lemma int_p_bits:
  assumes "source s = Bytes bs" "0 \<le> index s" "index s + int n \<le> 8 * int (length bs)" "0 < n"
  shows "int_p n s =
         Some (Inr \<lparr>source = Bytes bs, index = index s + int n,
                    result = VInt (if bit_at bs (index s) = 0 then bits_value bs (index s) n
                                   else bits_value bs (index s) n - 2 ^ n)\<rparr>)"
proof -
  have hd0: "py_getitem (map (\<lambda>i. bit_at bs (index s + int i)) [0..<n]) 0 = Some (bit_at bs (index s))"
    using \<open>0 < n\<close> by (simp add: py_getitem_def nth_map_upt del: upt_Suc)
  have iv: "int_value n (VList (map (\<lambda>i. VInt (bit_at bs (index s + int i))) [0..<n])) =
            Inr (VInt (if bit_at bs (index s) = 0 then bits_value bs (index s) n
                       else bits_value bs (index s) n - 2 ^ n))"
    unfolding int_value_def ints_of_val_VInt
    by (simp add: hd0 bits_value_weighted inverted_weighted del: map_map upt_Suc)
  show ?thesis
    using sequence_loop_bits [OF assms(1-3), of "[]"]
    by (simp add: int_p_def map_p_def sequence_of_def iv update_def del: upt_Suc)
qed

lemma bits_value_msb:
  assumes "0 < n"
  shows "bit (bits_value bs j n) (n - 1) \<longleftrightarrow> bit_at bs j = 1"
proof -
  obtain m where n: "n = Suc m" using assms by (cases n) auto
  have r: "0 \<le> bits_value bs (j + 1) m \<and> bits_value bs (j + 1) m < 2 ^ m"
    by (rule bits_value_bounds)
  have "bits_value bs j n div 2 ^ m = bit_at bs j"
    using r by (simp add: n bits_value_Suc_shift div_pos_pos_trivial)
  then show ?thesis
    using bit_at_cases [of bs j] by (auto simp: n bit_iff_odd)
qed

lemma bits_value_signed:
  assumes "0 < n"
  shows "signed_take_bit (n - 1) (bits_value bs j n) =
         (if bit_at bs j = 0 then bits_value bs j n else bits_value bs j n - 2 ^ n)"
proof -
  have tb: "take_bit n (bits_value bs j n) = bits_value bs j n"
    using bits_value_bounds [of bs j n] by (simp add: take_bit_int_eq_self)
  have "signed_take_bit (n - 1) (bits_value bs j n) =
        take_bit (Suc (n - 1)) (bits_value bs j n) - 2 ^ Suc (n - 1) * of_bool (bit (bits_value bs j n) (n - 1))"
    by (rule signed_take_bit_eq_take_bit_minus)
  also have "Suc (n - 1) = n" using assms by simp
  finally show ?thesis
    using bit_at_cases [of bs j] bits_value_msb [OF assms, of bs j] by (auto simp: tb)
qed

lemma int_p_zero: "int_p 0 s = Some (Inl IndexError)"
  by (simp add: int_p_def map_p_def sequence_of_def int_value_def ints_of_val_def py_getitem_def
      update_def)

lemma uint_p_zero: "uint_p 0 s = Some (Inr \<lparr>source = source s, index = index s, result = VInt 0\<rparr>)"
  by (simp add: uint_p_def map_p_def sequence_of_def uint_value_def ints_of_val_def weighted_sum_def update_def)

lemma int_p_eof:
  assumes "source s = Bytes bs" "0 \<le> index s" "8 * int (length bs) < index s + int n" "0 < n"
  shows "int_p n s = Some (Inl (EOFError eof_message))"
  using sequence_loop_bits_eof [OF assms, of "[]"]
  by (simp add: int_p_def map_p_def sequence_of_def)

section \<open>The unsigned decoder\<close>

text \<open>
  Claim C1. For a byte source that still holds \<open>n\<close> bits at the cursor, \<open>uint(n)\<close> succeeds,
  moves the cursor by exactly \<open>n\<close> bits and returns the sum of \<open>b_i * 2^(n-1-i)\<close> over the
  bits \<open>b_0 .. b_(n-1)\<close> it read, most significant first; each \<open>b_i\<close> is 0 or 1 and the
  value is not negative. On the byte \<open>0x45\<close> the first four bits \<open>0100\<close> give 4 and the
  next four bits \<open>0101\<close> give 5.
\<close>

theorem uint_big_endian:
  assumes "source s = Bytes bs" and "0 \<le> index s"
    and "index s + int n \<le> 8 * int (length bs)"
  shows "uint_p n s =
           Some (Inr \<lparr>source = source s, index = index s + int n,
                      result = VInt (\<Sum>i<n. bit_at bs (index s + int i) * 2 ^ (n - 1 - i))\<rparr>)
         \<and> (\<forall>i<n. bit_at bs (index s + int i) \<in> {0, 1})
         \<and> 0 \<le> (\<Sum>i<n. bit_at bs (index s + int i) * 2 ^ (n - 1 - i))
         \<and> uint_p 4 \<lparr>source = Bytes [0x45], index = 0, result = VNone\<rparr> =
             Some (Inr \<lparr>source = Bytes [0x45], index = 4, result = VInt 4\<rparr>)
         \<and> uint_p 4 \<lparr>source = Bytes [0x45], index = 4, result = VNone\<rparr> =
             Some (Inr \<lparr>source = Bytes [0x45], index = 8, result = VInt 5\<rparr>)"
proof -
  have run: "uint_p n s =
      Some (Inr \<lparr>source = source s, index = index s + int n,
                 result = VInt (\<Sum>i<n. bit_at bs (index s + int i) * 2 ^ (n - 1 - i))\<rparr>)"
    using uint_p_bits [OF assms] assms(1) by (simp add: bits_value_def)
  have bits: "\<forall>i<n. bit_at bs (index s + int i) \<in> {0, 1}"
    using bit_at_cases by auto
  have nonneg: "0 \<le> (\<Sum>i<n. bit_at bs (index s + int i) * 2 ^ (n - 1 - i))"
    using bits_value_bounds [of bs "index s" n] by (simp add: bits_value_def)
  have e1: "uint_p 4 \<lparr>source = Bytes [0x45], index = 0, result = VNone\<rparr> =
      Some (Inr \<lparr>source = Bytes [0x45], index = 4, result = VInt 4\<rparr>)"
    by code_simp
  have e2: "uint_p 4 \<lparr>source = Bytes [0x45], index = 4, result = VNone\<rparr> =
      Some (Inr \<lparr>source = Bytes [0x45], index = 8, result = VInt 5\<rparr>)"
    by code_simp
  from run bits nonneg e1 e2 show ?thesis
    by blast
qed

theorem uint_big_endian_witness:
  "source \<lparr>source = Bytes [0x45], index = 4, result = VNone\<rparr> = Bytes [0x45]
   \<and> 0 \<le> index \<lparr>source = Bytes [0x45], index = 4, result = VNone\<rparr>
   \<and> index \<lparr>source = Bytes [0x45], index = 4, result = VNone\<rparr> + int 4
        \<le> 8 * int (length [0x45 :: 8 word])
   \<and> uint_p 4 \<lparr>source = Bytes [0x45], index = 4, result = VNone\<rparr> =
        Some (Inr \<lparr>source = Bytes [0x45], index = 8,
                   result = VInt (bit_at [0x45] 4 * 8 + bit_at [0x45] 5 * 4
                                  + bit_at [0x45] 6 * 2 + bit_at [0x45] 7)\<rparr>)
   \<and> bit_at [0x45] 4 = 0 \<and> bit_at [0x45] 5 = 1 \<and> bit_at [0x45] 6 = 0 \<and> bit_at [0x45] 7 = 1"
proof -
  have h1: "source \<lparr>source = Bytes [0x45], index = 4, result = VNone\<rparr> = Bytes [0x45]"
    by simp
  have h2: "0 \<le> index \<lparr>source = Bytes [0x45], index = 4, result = VNone\<rparr>"
    by simp
  have h3: "index \<lparr>source = Bytes [0x45], index = 4, result = VNone\<rparr> + int 4
              \<le> 8 * int (length [0x45 :: 8 word])"
    by simp
  have b: "bit_at [0x45] 4 = 0 \<and> bit_at [0x45] 5 = 1 \<and> bit_at [0x45] 6 = 0 \<and> bit_at [0x45] 7 = 1"
    by (simp add: bit_at_def)
  have "{..<4::nat} = {0, 1, 2, 3}"
    by auto
  then have sum4: "(\<Sum>i<4::nat. f i) = f 0 + f 1 + f 2 + f 3" for f :: "nat \<Rightarrow> int"
    by simp
  from uint_big_endian [OF h1 h2 h3] b show ?thesis
    by (simp add: sum4)
qed

section \<open>The signed decoder\<close>

text \<open>
  Claim C2. For \<open>n \<ge> 1\<close> and a byte source that still holds \<open>n\<close> bits at the cursor,
  \<open>int(n)\<close> succeeds, moves the cursor by exactly \<open>n\<close> bits and returns the two's-complement
  value of the bits read: the unsigned value \<open>U\<close> that \<open>uint(n)\<close> returns on the same bits
  when the first bit is 0, and \<open>U - 2^n\<close> when the first bit is 1. \<open>U - 2^n\<close> is the
  \<open>-(1 + sum of the inverted bits)\<close> that the code computes, and the result is the library's
  \<open>signed_take_bit (n - 1) U\<close>. The bits \<open>10000001\<close> give -127 and \<open>01111111\<close> give 127.
\<close>

theorem int_twos_complement:
  assumes "source s = Bytes bs" and "0 \<le> index s"
    and "index s + int n \<le> 8 * int (length bs)" and "1 \<le> n"
  shows "int_p n s =
           Some (Inr \<lparr>source = source s, index = index s + int n,
                      result = VInt (if bit_at bs (index s) = 0 then bits_value bs (index s) n
                                     else bits_value bs (index s) n - 2 ^ n)\<rparr>)
         \<and> uint_p n s =
             Some (Inr \<lparr>source = source s, index = index s + int n,
                        result = VInt (bits_value bs (index s) n)\<rparr>)
         \<and> bits_value bs (index s) n - 2 ^ n =
             - (1 + (\<Sum>i<n. (if bit_at bs (index s + int i) = 1 then 0 else 1) * 2 ^ (n - 1 - i)))
         \<and> (if bit_at bs (index s) = 0 then bits_value bs (index s) n
             else bits_value bs (index s) n - 2 ^ n) =
             signed_take_bit (n - 1) (bits_value bs (index s) n)
         \<and> int_p 8 \<lparr>source = Bytes [0x81], index = 0, result = VNone\<rparr> =
             Some (Inr \<lparr>source = Bytes [0x81], index = 8, result = VInt (- 127)\<rparr>)
         \<and> int_p 8 \<lparr>source = Bytes [0x7F], index = 0, result = VNone\<rparr> =
             Some (Inr \<lparr>source = Bytes [0x7F], index = 8, result = VInt 127\<rparr>)"
proof -
  have pos: "0 < n"
    using assms(4) by simp
  have signed: "int_p n s =
      Some (Inr \<lparr>source = source s, index = index s + int n,
                 result = VInt (if bit_at bs (index s) = 0 then bits_value bs (index s) n
                                else bits_value bs (index s) n - 2 ^ n)\<rparr>)"
    using int_p_bits [OF assms(1-3) pos] assms(1) by simp
  have unsigned: "uint_p n s =
      Some (Inr \<lparr>source = source s, index = index s + int n,
                 result = VInt (bits_value bs (index s) n)\<rparr>)"
    using uint_p_bits [OF assms(1-3)] assms(1) by simp
  have inverted: "bits_value bs (index s) n - 2 ^ n =
      - (1 + (\<Sum>i<n. (if bit_at bs (index s + int i) = 1 then 0 else 1) * 2 ^ (n - 1 - i)))"
    unfolding inverted_bits_value by simp
  have std: "(if bit_at bs (index s) = 0 then bits_value bs (index s) n
              else bits_value bs (index s) n - 2 ^ n) =
             signed_take_bit (n - 1) (bits_value bs (index s) n)"
    using bits_value_signed [OF pos, of bs "index s"] by simp
  have e1: "int_p 8 \<lparr>source = Bytes [0x81], index = 0, result = VNone\<rparr> =
      Some (Inr \<lparr>source = Bytes [0x81], index = 8, result = VInt (- 127)\<rparr>)"
    by code_simp
  have e2: "int_p 8 \<lparr>source = Bytes [0x7F], index = 0, result = VNone\<rparr> =
      Some (Inr \<lparr>source = Bytes [0x7F], index = 8, result = VInt 127\<rparr>)"
    by code_simp
  from signed unsigned inverted std e1 e2 show ?thesis
    by blast
qed

theorem int_twos_complement_witness:
  "source \<lparr>source = Bytes [0x81], index = 0, result = VNone\<rparr> = Bytes [0x81]
   \<and> 0 \<le> index \<lparr>source = Bytes [0x81], index = 0, result = VNone\<rparr>
   \<and> index \<lparr>source = Bytes [0x81], index = 0, result = VNone\<rparr> + int 8
        \<le> 8 * int (length [0x81 :: 8 word])
   \<and> (1::nat) \<le> 8
   \<and> bit_at [0x81] 0 = 1
   \<and> int_p 8 \<lparr>source = Bytes [0x81], index = 0, result = VNone\<rparr> =
        Some (Inr \<lparr>source = Bytes [0x81], index = 8,
                   result = VInt (bits_value [0x81] 0 8 - 2 ^ 8)\<rparr>)
   \<and> uint_p 8 \<lparr>source = Bytes [0x81], index = 0, result = VNone\<rparr> =
        Some (Inr \<lparr>source = Bytes [0x81], index = 8, result = VInt (bits_value [0x81] 0 8)\<rparr>)
   \<and> bits_value [0x81] 0 8 - 2 ^ 8 = signed_take_bit 7 (bits_value [0x81] 0 8)"
proof -
  have h1: "source \<lparr>source = Bytes [0x81], index = 0, result = VNone\<rparr> = Bytes [0x81]"
    by simp
  have h2: "0 \<le> index \<lparr>source = Bytes [0x81], index = 0, result = VNone\<rparr>"
    by simp
  have h3: "index \<lparr>source = Bytes [0x81], index = 0, result = VNone\<rparr> + int 8
              \<le> 8 * int (length [0x81 :: 8 word])"
    by simp
  have h4: "(1::nat) \<le> 8"
    by simp
  have b: "bit_at [0x81] 0 = 1"
    by (simp add: bit_at_def)
  note t = int_twos_complement [OF h1 h2 h3 h4]
  from t [THEN conjunct1] t [THEN conjunct2, THEN conjunct1]
    t [THEN conjunct2, THEN conjunct2, THEN conjunct2, THEN conjunct1] b
  show ?thesis
    by simp
qed

section \<open>Decoders of width zero\<close>

text \<open>
  Claim C10. On every cursor \<open>int(0)\<close> raises \<open>IndexError\<close> (the lambda reads \<open>bits[0]\<close> of
  the empty list), which is neither a \<open>ParseError\<close> nor an \<open>EOFError\<close>, while \<open>uint(0)\<close>
  succeeds with 0 and leaves the position as it was. For \<open>n \<ge> 1\<close>, on a byte source at a
  non-negative position whose \<open>n\<close> bit positions all lie below \<open>2^53\<close> (where the quotient
  \<open>index / 8\<close> is exact), \<open>int(n)\<close> either succeeds with an integer or raises \<open>EOFError\<close>.
\<close>

theorem int_zero_raises_uint_zero_succeeds:
  "int_p 0 s = Some (Inl IndexError)
   \<and> int_p 0 s \<noteq> Some (Inl (ParseError m))
   \<and> int_p 0 s \<noteq> Some (Inl (EOFError m))
   \<and> uint_p 0 s = Some (Inr \<lparr>source = source s, index = index s, result = VInt 0\<rparr>)
   \<and> (1 \<le> n \<and> source s = Bytes bs \<and> 0 \<le> index s \<and> index s + int n \<le> 2 ^ 53 \<longrightarrow>
        (\<exists>v. int_p n s = Some (Inr \<lparr>source = source s, index = index s + int n,
                                     result = VInt v\<rparr>))
        \<or> int_p n s = Some (Inl (EOFError eof_message)))"
proof -
  have total: "(\<exists>v. int_p n s = Some (Inr \<lparr>source = source s, index = index s + int n,
                                           result = VInt v\<rparr>))
               \<or> int_p n s = Some (Inl (EOFError eof_message))"
    if n: "1 \<le> n" and src: "source s = Bytes bs" and ix: "0 \<le> index s"
  proof (cases "index s + int n \<le> 8 * int (length bs)")
    case True
    with int_p_bits [OF src ix True] n src show ?thesis
      by simp
  next
    case False
    with int_p_eof [OF src ix _ _] n show ?thesis
      by simp
  qed
  then show ?thesis
    by (simp add: int_p_zero uint_p_zero)
qed

theorem int_zero_raises_uint_zero_succeeds_witness:
  "int_p 0 \<lparr>source = Bytes [0x81], index = 0, result = VNone\<rparr> = Some (Inl IndexError)
   \<and> uint_p 0 \<lparr>source = Bytes [0x81], index = 0, result = VNone\<rparr> =
        Some (Inr \<lparr>source = Bytes [0x81], index = 0, result = VInt 0\<rparr>)
   \<and> (1::nat) \<le> 9
   \<and> source \<lparr>source = Bytes [0x81], index = 0, result = VNone\<rparr> = Bytes [0x81]
   \<and> 0 \<le> index \<lparr>source = Bytes [0x81], index = 0, result = VNone\<rparr>
   \<and> index \<lparr>source = Bytes [0x81], index = 0, result = VNone\<rparr> + int 9 \<le> 2 ^ 53
   \<and> int_p 9 \<lparr>source = Bytes [0x81], index = 0, result = VNone\<rparr> =
        Some (Inl (EOFError eof_message))"
proof -
  have no_value: "int_p 9 \<lparr>source = Bytes [0x81], index = 0, result = VNone\<rparr> \<noteq>
      Some (Inr \<lparr>source = Bytes [0x81], index = 9, result = VInt v\<rparr>)" for v
    by (simp add: int_p_eof [of _ "[0x81]"])
  from int_zero_raises_uint_zero_succeeds
         [of "\<lparr>source = Bytes [0x81], index = 0, result = VNone\<rparr>" "[]" 9 "[0x81]"]
       no_value
  show ?thesis
    by simp
qed

section \<open>Alternation\<close>

lemma choice_skip:
  assumes "\<forall>p\<in>set ps. \<exists>m. p s = Some (Inl (ParseError m))"
  shows "choice (ps @ qs) s = choice qs s"
  using assms by (induction ps) auto

lemma choice_at:
  assumes "i < length ps" and "\<forall>j<i. \<exists>m. (ps ! j) s = Some (Inl (ParseError m))"
  shows "choice ps s = choice (ps ! i # drop (Suc i) ps) s"
proof -
  have "\<forall>p\<in>set (take i ps). \<exists>m. p s = Some (Inl (ParseError m))"
    using assms by (auto simp: in_set_conv_nth)
  then have "choice (take i ps @ ps ! i # drop (Suc i) ps) s = choice (ps ! i # drop (Suc i) ps) s"
    by (rule choice_skip)
  then show ?thesis
    using assms(1) by (simp add: id_take_nth_drop [symmetric])
qed

lemma choice_all_mismatch:
  assumes "\<forall>j<length ps. \<exists>m. (ps ! j) s = Some (Inl (ParseError m))"
  shows "choice ps s =
         Some (Inl (ParseError (''Unable to match any parsers at index '' @ str_int (index s) @ ''.'')))"
proof -
  have "\<forall>p\<in>set ps. \<exists>m. p s = Some (Inl (ParseError m))"
    using assms by (auto simp: in_set_conv_nth)
  from choice_skip [OF this, of "[]"] show ?thesis
    by simp
qed

lemma str_int_0: "str_int 0 = ''0''"
  by code_simp

text \<open>
  Claim C3. \<open>choice\<close> runs its alternatives in order, each on the cursor the choice was
  given. When the alternatives before position \<open>i\<close> all raise \<open>ParseError\<close> on that cursor:
  if alternative \<open>i\<close> succeeds there, the choice returns its cursor; if alternative \<open>i\<close>
  raises \<open>EOFError\<close> there, the choice raises the same \<open>EOFError\<close> and the later
  alternatives are not run. When every alternative raises \<open>ParseError\<close>, so does the choice,
  with a message that names the index of the cursor it was given.
\<close>

theorem choice_first_success:
  "(i < length ps \<and> (\<forall>j<i. \<exists>m. (ps ! j) s = Some (Inl (ParseError m))) \<and> (ps ! i) s = Some (Inr s')
      \<longrightarrow> choice ps s = Some (Inr s'))
   \<and> (i < length ps \<and> (\<forall>j<i. \<exists>m. (ps ! j) s = Some (Inl (ParseError m)))
        \<and> (ps ! i) s = Some (Inl (EOFError m'))
      \<longrightarrow> choice ps s = Some (Inl (EOFError m')))
   \<and> ((\<forall>j<length ps. \<exists>m. (ps ! j) s = Some (Inl (ParseError m)))
      \<longrightarrow> choice ps s =
            Some (Inl (ParseError
              (''Unable to match any parsers at index '' @ str_int (index s) @ ''.''))))"
  using choice_at [of i ps s] choice_all_mismatch [of ps s] by auto

theorem choice_first_success_witness:
  "choice [one_p, zero_p, bit_p] \<lparr>source = Bytes [0x40], index = 0, result = VNone\<rparr> =
     Some (Inr \<lparr>source = Bytes [0x40], index = 1, result = VInt 0\<rparr>)
   \<and> choice [one_p, uint_p 16, zero_p] \<lparr>source = Bytes [0x40], index = 0, result = VNone\<rparr> =
     Some (Inl (EOFError eof_message))
   \<and> choice [one_p, fail ''no''] \<lparr>source = Bytes [0x40], index = 0, result = VNone\<rparr> =
     Some (Inl (ParseError ''Unable to match any parsers at index 0.''))"
proof -
  let ?s = "\<lparr>source = Bytes [0x40], index = 0, result = VNone\<rparr>"
  have rb: "read_bit ?s = Inr 0"
    by (simp add: read_bit_def source_len_def py_getitem_def)
  have one: "one_p ?s = Some (Inl (ParseError ''Expected a one, but got a zero at index 0''))"
    by (simp add: one_p_def rb str_int_0)
  have zero: "zero_p ?s = Some (Inr \<lparr>source = Bytes [0x40], index = 1, result = VInt 0\<rparr>)"
    by (simp add: zero_p_def rb update_def)
  have wide: "uint_p 16 ?s = Some (Inl (EOFError eof_message))"
    using sequence_loop_bits_eof [of ?s "[0x40]" 16 "[]"]
    by (simp add: uint_p_def map_p_def sequence_of_def)
  have a: "choice [one_p, zero_p, bit_p] ?s =
      Some (Inr \<lparr>source = Bytes [0x40], index = 1, result = VInt 0\<rparr>)"
    using choice_first_success [of 1 "[one_p, zero_p, bit_p]" ?s
        "\<lparr>source = Bytes [0x40], index = 1, result = VInt 0\<rparr>"]
    by (simp add: one zero)
  have b: "choice [one_p, uint_p 16, zero_p] ?s = Some (Inl (EOFError eof_message))"
    using choice_first_success [of 1 "[one_p, uint_p 16, zero_p]" ?s _ eof_message]
    by (simp add: one wide)
  have c: "choice [one_p, fail ''no''] ?s =
      Some (Inl (ParseError ''Unable to match any parsers at index 0.''))"
    using choice_first_success [of _ "[one_p, fail ''no'']" ?s]
    by (simp add: one fail_def less_Suc_eq str_int_0 all_conj_distrib)
  from a b c show ?thesis
    by simp
qed

section \<open>The entry point\<close>

text \<open>
  Claim C7, as the code has it. \<open>parse\<close> builds the cursor \<open>(target, 0, None)\<close>, runs the
  wrapped function on it and returns what that function returns: on success the final cursor
  object (source, index and result), whose \<open>result\<close> field holds the value of the outermost
  combinator; a raised exception escapes unchanged.
\<close>

theorem parse_returns_cursor:
  "parse fn tgt = map_option (map_sum id Cursor) (fn \<lparr>source = tgt, index = 0, result = VNone\<rparr>)
   \<and> (fn \<lparr>source = tgt, index = 0, result = VNone\<rparr> = Some (Inr s')
        \<longrightarrow> parse fn tgt = Some (Inr (Cursor s')))
   \<and> (fn \<lparr>source = tgt, index = 0, result = VNone\<rparr> = Some (Inl e)
        \<longrightarrow> parse fn tgt = Some (Inl e))"
  by (simp add: parse_def)

theorem parse_returns_cursor_witness:
  "uint_p 4 \<lparr>source = Bytes [0x45], index = 0, result = VNone\<rparr> =
     Some (Inr \<lparr>source = Bytes [0x45], index = 4, result = VInt 4\<rparr>)
   \<and> parse (uint_p 4) (Bytes [0x45]) =
     Some (Inr (Cursor \<lparr>source = Bytes [0x45], index = 4, result = VInt 4\<rparr>))
   \<and> uint_p 16 \<lparr>source = Bytes [0x45], index = 0, result = VNone\<rparr> =
     Some (Inl (EOFError eof_message))
   \<and> parse (uint_p 16) (Bytes [0x45]) = Some (Inl (EOFError eof_message))"
proof -
  have ok: "uint_p 4 \<lparr>source = Bytes [0x45], index = 0, result = VNone\<rparr> =
      Some (Inr \<lparr>source = Bytes [0x45], index = 4, result = VInt 4\<rparr>)"
    by code_simp
  have eof: "uint_p 16 \<lparr>source = Bytes [0x45], index = 0, result = VNone\<rparr> =
      Some (Inl (EOFError eof_message))"
    using sequence_loop_bits_eof [of "\<lparr>source = Bytes [0x45], index = 0, result = VNone\<rparr>" "[0x45]" 16 "[]"]
    by (simp add: uint_p_def map_p_def sequence_of_def)
  from parse_returns_cursor [of "uint_p 4" "Bytes [0x45]"
         "\<lparr>source = Bytes [0x45], index = 4, result = VInt 4\<rparr>"]
       parse_returns_cursor [of "uint_p 16" "Bytes [0x45]" _ "EOFError eof_message"]
       ok eof
  show ?thesis
    by simp
qed

text \<open>
  The claim as stated, that \<open>parse\<close> returns the result value and not the cursor, fails:
  \<open>succeed(7).parse(b'')\<close> returns a cursor whose result is 7, not the value 7.
\<close>

theorem parse_result_value_counterexample:
  "parse (succeed (VInt 7)) (Bytes []) =
     Some (Inr (Cursor \<lparr>source = Bytes [], index = 0, result = VInt 7\<rparr>))
   \<and> parse (succeed (VInt 7)) (Bytes []) \<noteq> Some (Inr (Value (VInt 7)))"
  by (simp add: parse_def succeed_def update_def)

section \<open>Repetition\<close>

text \<open>
  Claim C4 at a failing first attempt. \<open>many(one)\<close> on the byte \<open>0x00\<close> from a fresh cursor
  returns that cursor as it was given: the index is still 0, but the result is the \<open>None\<close>
  the cursor came with, not the empty list. The same happens when the first attempt ends in
  \<open>EOFError\<close> (the result stays the 3 of the cursor given). After one success the loop
  returns the list of results, as on the byte \<open>0x80\<close>.
\<close>

theorem many_first_failure_keeps_old_result:
  "many one_p \<lparr>source = Bytes [0x00], index = 0, result = VNone\<rparr> =
     Some (Inr \<lparr>source = Bytes [0x00], index = 0, result = VNone\<rparr>)
   \<and> many one_p \<lparr>source = Bytes [0x00], index = 0, result = VNone\<rparr> \<noteq>
     Some (Inr \<lparr>source = Bytes [0x00], index = 0, result = VList []\<rparr>)
   \<and> many bit_p \<lparr>source = Bytes [], index = 0, result = VInt 3\<rparr> =
     Some (Inr \<lparr>source = Bytes [], index = 0, result = VInt 3\<rparr>)
   \<and> many one_p \<lparr>source = Bytes [0x80], index = 0, result = VNone\<rparr> =
     Some (Inr \<lparr>source = Bytes [0x80], index = 1, result = VList [VInt 1]\<rparr>)"
  by code_simp

section \<open>Bytes at aligned positions\<close>



section \<open>Separated lists\<close>

lemma separated_loop_step:
  assumes "value_parser s = Some (Inr v)" and "separator_parser v = Some (Inr s')"
  shows "separated_loop separator_parser value_parser s rs =
         separated_loop separator_parser value_parser s' (rs @ [result v])"
  by (subst separated_loop.simps) (simp add: assms)

lemma separated_loop_value_mismatch:
  assumes "value_parser s = Some (Inl (ParseError m))"
  shows "separated_loop separator_parser value_parser s rs =
         Some (Inr (update s (index s) (VList rs)))"
  by (subst separated_loop.simps) (simp add: assms)

lemma separated_loop_separator_mismatch:
  assumes "value_parser s = Some (Inr v)" and "separator_parser v = Some (Inl (ParseError m))"
  shows "separated_loop separator_parser value_parser s rs =
         Some (Inr (update v (index v) (VList (rs @ [result v]))))"
  by (subst separated_loop.simps) (simp add: assms)

lemma separated_loop_run:
  assumes "\<forall>j<k. value_parser (S j) = Some (Inr (V j)) \<and>
                  separator_parser (V j) = Some (Inr (S (Suc j)))"
  shows "separated_loop separator_parser value_parser (S 0) rs =
         separated_loop separator_parser value_parser (S k) (rs @ map (\<lambda>j. result (V j)) [0..<k])"
  using assms
proof (induction k)
  case 0
  show ?case by simp
next
  case (Suc k)
  have "separated_loop separator_parser value_parser (S 0) rs =
        separated_loop separator_parser value_parser (S k) (rs @ map (\<lambda>j. result (V j)) [0..<k])"
    using Suc.prems by (intro Suc.IH) simp
  also have "\<dots> = separated_loop separator_parser value_parser (S (Suc k))
                      ((rs @ map (\<lambda>j. result (V j)) [0..<k]) @ [result (V k)])"
    using Suc.prems
    by (intro separated_loop_step [where value_parser = value_parser and s = "S k"
          and separator_parser = separator_parser and v = "V k"]) simp_all
  finally show ?case
    by simp
qed

lemma letter_a: "letter \<lparr>source = Text ''a,+'', index = 0, result = VNone\<rparr> =
   Some (Inr \<lparr>source = Text ''a,+'', index = 1, result = VStr ''a''\<rparr>)"
  by code_simp

lemma comma_1: "string_p '','' \<lparr>source = Text ''a,+'', index = 1, result = VStr ''a''\<rparr> =
   Some (Inr \<lparr>source = Text ''a,+'', index = 2, result = VStr '',''\<rparr>)"
  by code_simp

lemma letter_plus: "letter \<lparr>source = Text ''a,+'', index = 2, result = VStr '',''\<rparr> =
   Some (Inl (ParseError ''Couldn't match letters at index 2.''))"
  by code_simp

text \<open>
  Claim C8, as the code has it. Let the value parser and the separator succeed alternately
  for \<open>k\<close> rounds, from the cursor \<open>S 0\<close> through \<open>V 0, S 1, V 1, ..., S k\<close>. If the
  value parser then raises \<open>ParseError\<close> at \<open>S k\<close>, \<open>separated_by\<close> succeeds with the \<open>k\<close>
  values at the position of \<open>S k\<close>, which for \<open>k > 0\<close> lies after the last separator: a
  separator that matched stays consumed although no value follows it. If the value parser
  succeeds once more (\<open>V k\<close>) and the separator raises \<open>ParseError\<close>, \<open>separated_by\<close>
  succeeds with the \<open>k + 1\<close> values at the position of \<open>V k\<close>. In both cases only the input
  of the attempt that raised is left unconsumed.
\<close>

theorem separated_by_stops_at_mismatch:
  assumes "\<forall>j<k. value_parser (S j) = Some (Inr (V j)) \<and>
                  separator_parser (V j) = Some (Inr (S (Suc j)))"
  shows "(value_parser (S k) = Some (Inl (ParseError m)) \<longrightarrow>
            separated_by separator_parser value_parser (S 0) =
              Some (Inr \<lparr>source = source (S k), index = index (S k),
                         result = VList (map (\<lambda>j. result (V j)) [0..<k])\<rparr>))
         \<and> (value_parser (S k) = Some (Inr (V k)) \<and>
              separator_parser (V k) = Some (Inl (ParseError m)) \<longrightarrow>
            separated_by separator_parser value_parser (S 0) =
              Some (Inr \<lparr>source = source (V k), index = index (V k),
                         result = VList (map (\<lambda>j. result (V j)) [0..<Suc k])\<rparr>))"
proof -
  note run = separated_loop_run [OF assms, of "[]"]
  have a: "separated_by separator_parser value_parser (S 0) =
      Some (Inr \<lparr>source = source (S k), index = index (S k),
                 result = VList (map (\<lambda>j. result (V j)) [0..<k])\<rparr>)"
    if "value_parser (S k) = Some (Inl (ParseError m))"
    using run separated_loop_value_mismatch
        [where value_parser = value_parser and s = "S k" and separator_parser = separator_parser,
         OF that]
    by (simp add: separated_by_def update_def)
  have b: "separated_by separator_parser value_parser (S 0) =
      Some (Inr \<lparr>source = source (V k), index = index (V k),
                 result = VList (map (\<lambda>j. result (V j)) [0..<Suc k])\<rparr>)"
    if "value_parser (S k) = Some (Inr (V k))" "separator_parser (V k) = Some (Inl (ParseError m))"
    using run separated_loop_separator_mismatch
        [where value_parser = value_parser and s = "S k" and separator_parser = separator_parser
           and v = "V k", OF that]
    by (simp add: separated_by_def update_def)
  from a b show ?thesis
    by blast
qed

theorem separated_by_stops_at_mismatch_witness:
  "(letter \<lparr>source = Text ''a,+'', index = 0, result = VNone\<rparr> =
     Some (Inr \<lparr>source = Text ''a,+'', index = 1, result = VStr ''a''\<rparr>)
   \<and> string_p '','' \<lparr>source = Text ''a,+'', index = 1, result = VStr ''a''\<rparr> =
     Some (Inr \<lparr>source = Text ''a,+'', index = 2, result = VStr '',''\<rparr>)
   \<and> letter \<lparr>source = Text ''a,+'', index = 2, result = VStr '',''\<rparr> =
     Some (Inl (ParseError ''Couldn't match letters at index 2.''))
   \<and> separated_by (string_p '','') letter \<lparr>source = Text ''a,+'', index = 0, result = VNone\<rparr> =
     Some (Inr \<lparr>source = Text ''a,+'', index = 2, result = VList [VStr ''a'']\<rparr>))
   \<and> (one_p \<lparr>source = Bytes [0xC0], index = 0, result = VNone\<rparr> =
     Some (Inr \<lparr>source = Bytes [0xC0], index = 1, result = VInt 1\<rparr>)
   \<and> zero_p \<lparr>source = Bytes [0xC0], index = 1, result = VInt 1\<rparr> =
     Some (Inl (ParseError ''Expected a zero, but got a one at index 1''))
   \<and> separated_by zero_p one_p \<lparr>source = Bytes [0xC0], index = 0, result = VNone\<rparr> =
     Some (Inr \<lparr>source = Bytes [0xC0], index = 1, result = VList [VInt 1]\<rparr>))"
proof -
  have first: "letter \<lparr>source = Text ''a,+'', index = 0, result = VNone\<rparr> =
     Some (Inr \<lparr>source = Text ''a,+'', index = 1, result = VStr ''a''\<rparr>)
   \<and> string_p '','' \<lparr>source = Text ''a,+'', index = 1, result = VStr ''a''\<rparr> =
     Some (Inr \<lparr>source = Text ''a,+'', index = 2, result = VStr '',''\<rparr>)
   \<and> letter \<lparr>source = Text ''a,+'', index = 2, result = VStr '',''\<rparr> =
     Some (Inl (ParseError ''Couldn't match letters at index 2.''))
   \<and> separated_by (string_p '','') letter \<lparr>source = Text ''a,+'', index = 0, result = VNone\<rparr> =
     Some (Inr \<lparr>source = Text ''a,+'', index = 2, result = VList [VStr ''a'']\<rparr>)"
  proof -
    let ?s0 = "\<lparr>source = Text ''a,+'', index = 0, result = VNone\<rparr>"
    let ?v0 = "\<lparr>source = Text ''a,+'', index = 1, result = VStr ''a''\<rparr>"
    let ?s1 = "\<lparr>source = Text ''a,+'', index = 2, result = VStr '',''\<rparr>"
    let ?S = "\<lambda>j::nat. if j = 0 then ?s0 else ?s1"
    let ?V = "\<lambda>j::nat. ?v0"
    have rounds: "\<forall>j<1. letter (?S j) = Some (Inr (?V j)) \<and>
                         string_p '','' (?V j) = Some (Inr (?S (Suc j)))"
      by (simp add: letter_a comma_1)
    from separated_by_stops_at_mismatch
           [where value_parser = letter and separator_parser = "string_p '',''" and S = ?S
              and V = ?V and k = 1 and m = "''Couldn't match letters at index 2.''", OF rounds]
    have "separated_by (string_p '','') letter ?s0 =
        Some (Inr \<lparr>source = Text ''a,+'', index = 2, result = VList [VStr ''a'']\<rparr>)"
      by (simp add: letter_plus)
    with letter_a comma_1 letter_plus show ?thesis
      by simp
  qed
  have second: "one_p \<lparr>source = Bytes [0xC0], index = 0, result = VNone\<rparr> =
     Some (Inr \<lparr>source = Bytes [0xC0], index = 1, result = VInt 1\<rparr>)
   \<and> zero_p \<lparr>source = Bytes [0xC0], index = 1, result = VInt 1\<rparr> =
     Some (Inl (ParseError ''Expected a zero, but got a one at index 1''))
   \<and> separated_by zero_p one_p \<lparr>source = Bytes [0xC0], index = 0, result = VNone\<rparr> =
     Some (Inr \<lparr>source = Bytes [0xC0], index = 1, result = VList [VInt 1]\<rparr>)"
  proof -
    let ?b0 = "\<lparr>source = Bytes [0xC0], index = 0, result = VNone\<rparr>"
    let ?b1 = "\<lparr>source = Bytes [0xC0], index = 1, result = VInt 1\<rparr>"
    have one: "one_p ?b0 = Some (Inr ?b1)"
      by code_simp
    have zero: "zero_p ?b1 = Some (Inl (ParseError ''Expected a zero, but got a one at index 1''))"
      by code_simp
    have none: "\<forall>j<(0::nat). P j" for P
      by simp
    from separated_by_stops_at_mismatch
           [where value_parser = one_p and separator_parser = zero_p and S = "\<lambda>j. ?b0"
              and V = "\<lambda>j. ?b1" and k = 0
              and m = "''Expected a zero, but got a one at index 1''", OF none]
    have a: "separated_by zero_p one_p ?b0 =
        Some (Inr \<lparr>source = Bytes [0xC0], index = 1, result = VList [VInt 1]\<rparr>)"
      by (simp add: one zero)
    show ?thesis
      by (intro conjI one zero a)
  qed
  from first second show ?thesis
    by (rule conjI)
qed

text \<open>
  The claim as stated, that the final position leaves out the input of a trailing attempt
  that no full match follows, fails. On \<open>"a,+"\<close> the letter \<open>a\<close> ends at index 1, the comma
  is matched and no letter follows it, yet the cursor returned is at index 2: the input of
  the trailing separator is included.
\<close>

theorem separated_by_trailing_counterexample:
  "separated_by (string_p '','') letter \<lparr>source = Text ''a,+'', index = 0, result = VNone\<rparr> =
     Some (Inr \<lparr>source = Text ''a,+'', index = 2, result = VList [VStr ''a'']\<rparr>)
   \<and> letter \<lparr>source = Text ''a,+'', index = 0, result = VNone\<rparr> =
     Some (Inr \<lparr>source = Text ''a,+'', index = 1, result = VStr ''a''\<rparr>)
   \<and> string_p '','' \<lparr>source = Text ''a,+'', index = 1, result = VStr ''a''\<rparr> =
     Some (Inr \<lparr>source = Text ''a,+'', index = 2, result = VStr '',''\<rparr>)
   \<and> letter \<lparr>source = Text ''a,+'', index = 2, result = VStr '',''\<rparr> =
     Some (Inl (ParseError ''Couldn't match letters at index 2.''))"
  by code_simp

section \<open>The byte-exact matcher\<close>








section \<open>The IPv4 header\<close>

text \<open>
  Claim C5 on the sample headers. With IHL = 5 the parse ends at bit 160 with the thirteen
  tagged fields. With IHL = 6 it consumes eight more bytes (bit 224), and the result has
  fifteen elements: the thirteen tagged fields, then the bare string \<open>Options\<close>, then the
  list of the eight option bytes. The last two are not one tagged pair.
\<close>

theorem ipv4_options_not_tagged:
  "ipv4_header_parser \<lparr>source = Bytes header_ihl5, index = 0, result = VNone\<rparr> =
     Some (Inr \<lparr>source = Bytes header_ihl5, index = 160,
                result = VList
                  [VTuple [VStr ''Version'', VInt 4],
                   VTuple [VStr ''IHL'', VInt 5],
                   VTuple [VStr ''DSCP'', VInt 0],
                   VTuple [VStr ''ECN'', VInt 0],
                   VTuple [VStr ''Total Length'', VInt 84],
                   VTuple [VStr ''Identification'', VInt 4660],
                   VTuple [VStr ''Flags'', VInt 2],
                   VTuple [VStr ''Fragment Offset'', VInt 0],
                   VTuple [VStr ''TTL'', VInt 64],
                   VTuple [VStr ''Protocol'', VInt 1],
                   VTuple [VStr ''Header Checksum'', VInt 43981],
                   VTuple [VStr ''Source IP'', VStr ''192.168.0.1''],
                   VTuple [VStr ''Destination IP'', VStr ''10.0.0.255'']]\<rparr>)
   \<and> ipv4_header_parser \<lparr>source = Bytes header_ihl6, index = 0, result = VNone\<rparr> =
     Some (Inr \<lparr>source = Bytes header_ihl6, index = 224,
                result = VList
                  [VTuple [VStr ''Version'', VInt 4],
                   VTuple [VStr ''IHL'', VInt 6],
                   VTuple [VStr ''DSCP'', VInt 0],
                   VTuple [VStr ''ECN'', VInt 0],
                   VTuple [VStr ''Total Length'', VInt 84],
                   VTuple [VStr ''Identification'', VInt 4660],
                   VTuple [VStr ''Flags'', VInt 2],
                   VTuple [VStr ''Fragment Offset'', VInt 0],
                   VTuple [VStr ''TTL'', VInt 64],
                   VTuple [VStr ''Protocol'', VInt 1],
                   VTuple [VStr ''Header Checksum'', VInt 43981],
                   VTuple [VStr ''Source IP'', VStr ''192.168.0.1''],
                   VTuple [VStr ''Destination IP'', VStr ''10.0.0.255''],
                   VStr ''Options'',
                   VList [VInt 1, VInt 2, VInt 3, VInt 4, VInt 5, VInt 6, VInt 7, VInt 8]]\<rparr>)"
  by code_simp

section \<open>Cursors only move forward\<close>

lemma index_monotoneD: "index_monotone p \<Longrightarrow> p s = Some (Inr s') \<Longrightarrow> index s \<le> index s'"
  by (simp add: index_monotone_def)

lemma monotone_bit_p: "index_monotone bit_p"
  by (auto simp: index_monotone_def bit_p_def update_def split: sum.splits)

lemma monotone_zero_p: "index_monotone zero_p"
  by (auto simp: index_monotone_def zero_p_def update_def split: sum.splits if_splits)

lemma monotone_one_p: "index_monotone one_p"
  by (auto simp: index_monotone_def one_p_def update_def split: sum.splits if_splits)

lemma monotone_string_p: "index_monotone (string_p t)"
  by (auto simp: index_monotone_def string_p_def update_def split: source.splits if_splits)

lemma monotone_letter: "index_monotone letter"
  by (auto simp: index_monotone_def letter_def update_def split: source.splits if_splits)

lemma monotone_digit: "index_monotone digit"
  by (auto simp: index_monotone_def digit_def update_def split: source.splits if_splits)

lemma monotone_succeed: "index_monotone (succeed v)"
  by (simp add: index_monotone_def succeed_def update_def)

lemma monotone_fail: "index_monotone (fail msg)"
  by (simp add: index_monotone_def fail_def)

lemma monotone_map_p: "index_monotone p \<Longrightarrow> index_monotone (map_p p f)"
  by (auto simp: index_monotone_def map_p_def update_def split: option.splits sum.splits)

lemma monotone_chain:
  assumes "index_monotone p" and "\<forall>v q. k v = Inr q \<longrightarrow> index_monotone q"
  shows "index_monotone (chain p k)"
  unfolding index_monotone_def
proof (intro allI impI)
  fix s s' assume run: "chain p k s = Some (Inr s')"
  then obtain s1 q where 1: "p s = Some (Inr s1)" and 2: "k (result s1) = Inr q"
    and 3: "q s1 = Some (Inr s')"
    by (auto simp: chain_def split: option.splits sum.splits)
  from assms(1) 1 have "index s \<le> index s1"
    by (rule index_monotoneD)
  moreover from assms(2) 2 3 have "index s1 \<le> index s'"
    by (blast intro: index_monotoneD)
  ultimately show "index s \<le> index s'"
    by simp
qed

lemma monotone_error_map: "index_monotone p \<Longrightarrow> index_monotone (error_map p g)"
  unfolding index_monotone_def
proof (intro allI impI)
  fix s s' assume mono: "\<forall>s s'. p s = Some (Inr s') \<longrightarrow> index s \<le> index s'"
    and run: "error_map p g s = Some (Inr s')"
  from run consider "p s = Some (Inr s')" | v where "s' = update s (index s) v"
    by (auto simp: error_map_def split: option.splits sum.splits error.splits)
  then show "index s \<le> index s'"
  proof cases
    case 1
    with mono show ?thesis by blast
  next
    case 2
    then show ?thesis by (simp add: update_def)
  qed
qed

lemma sequence_loop_monotone:
  assumes "\<forall>p\<in>set ps. index_monotone p" and "sequence_loop ps s rs = Some (Inr s')"
  shows "index s \<le> index s'"
  using assms
proof (induction ps arbitrary: s rs)
  case Nil
  then show ?case by (auto simp: update_def)
next
  case (Cons p ps)
  from Cons.prems(2) obtain s1 where 1: "p s = Some (Inr s1)"
    and 2: "sequence_loop ps s1 (rs @ [result s1]) = Some (Inr s')"
    by (auto split: option.splits sum.splits)
  from Cons.prems(1) 1 have "index s \<le> index s1"
    by (auto intro: index_monotoneD)
  moreover from Cons.prems(1) 2 have "index s1 \<le> index s'"
    by (intro Cons.IH) auto
  ultimately show ?case by simp
qed

lemma monotone_sequence_of: "\<forall>p\<in>set ps. index_monotone p \<Longrightarrow> index_monotone (sequence_of ps)"
  unfolding index_monotone_def sequence_of_def
  using sequence_loop_monotone [unfolded index_monotone_def] by blast

lemma choice_monotone:
  assumes "\<forall>p\<in>set ps. index_monotone p" and "choice ps s = Some (Inr s')"
  shows "index s \<le> index s'"
  using assms
proof (induction ps)
  case Nil
  then show ?case by simp
next
  case (Cons p ps)
  then show ?case
    by (auto split: option.splits sum.splits error.splits intro: index_monotoneD)
qed

lemma monotone_choice: "\<forall>p\<in>set ps. index_monotone p \<Longrightarrow> index_monotone (choice ps)"
  unfolding index_monotone_def using choice_monotone [unfolded index_monotone_def] by blast

lemma many_loop_monotone:
  assumes "many_loop p s rs = Some y"
  shows "index_monotone p \<longrightarrow> (\<forall>s'. y = Inr s' \<longrightarrow> index s \<le> index s')"
  using assms
proof (induct rule: many_loop.raw_induct [rotated, consumes 1, case_names body])
  case (body loop p s rs y)
  note 1 = this
  show ?case
  proof (intro impI allI)
    fix s' assume mono: "index_monotone p" and y: "y = Inr s'"
    show "index s \<le> index s'"
    proof (cases "p s")
      case None
      with 1(2) show ?thesis by simp
    next
      case (Some r)
      show ?thesis
      proof (cases r)
        case (Inl e)
        with 1(2) Some y show ?thesis
          by (cases e) (auto simp: update_def)
      next
        case (Inr s1)
        with 1(2) Some have "loop p s1 (rs @ [result s1]) = Some y"
          by simp
        from 1(1) [OF this] mono y have "index s1 \<le> index s'"
          by simp
        moreover from mono Some Inr have "index s \<le> index s1"
          by (auto intro: index_monotoneD)
        ultimately show ?thesis by simp
      qed
    qed
  qed
qed


lemma monotone_many: "index_monotone p \<Longrightarrow> index_monotone (many p)"
  unfolding index_monotone_def
proof (intro allI impI)
  fix s s' assume mono: "\<forall>s s'. p s = Some (Inr s') \<longrightarrow> index s \<le> index s'"
    and run: "many p s = Some (Inr s')"
  from run consider "s' = s" | s1 where "p s = Some (Inr s1)" "many_loop p s1 [result s1] = Some (Inr s')"
    by (auto simp: many_def split: option.splits sum.splits)
  then show "index s \<le> index s'"
  proof cases
    case 1
    then show ?thesis by simp
  next
    case 2
    from mono 2(1) have "index s \<le> index s1" by blast
    moreover from many_loop_monotone [OF 2(2)] mono have "index s1 \<le> index s'"
      by (simp add: index_monotone_def)
    ultimately show ?thesis by simp
  qed
qed

lemma monotone_many1: "index_monotone p \<Longrightarrow> index_monotone (many1 p)"
  unfolding index_monotone_def
proof (intro allI impI)
  fix s s' assume mono: "\<forall>s s'. p s = Some (Inr s') \<longrightarrow> index s \<le> index s'"
    and run: "many1 p s = Some (Inr s')"
  from run obtain s1 where 2: "p s = Some (Inr s1)" "many_loop p s1 [result s1] = Some (Inr s')"
    by (auto simp: many1_def split: option.splits sum.splits)
  from mono 2(1) have "index s \<le> index s1" by blast
  moreover from many_loop_monotone [OF 2(2)] mono have "index s1 \<le> index s'"
    by (simp add: index_monotone_def)
  ultimately show "index s \<le> index s'" by simp
qed

lemma separated_loop_monotone:
  assumes "separated_loop q p s rs = Some y"
  shows "index_monotone p \<and> index_monotone q \<longrightarrow> (\<forall>s'. y = Inr s' \<longrightarrow> index s \<le> index s')"
  using assms
proof (induct rule: separated_loop.raw_induct [rotated, consumes 1, case_names body])
  case (body loop q p s rs y)
  note IH = body(1) and unfolded = body(2)
  show ?case
  proof (intro impI allI)
    fix s' assume mono: "index_monotone p \<and> index_monotone q" and y: "y = Inr s'"
    show "index s \<le> index s'"
    proof (cases "p s")
      case None
      with unfolded show ?thesis by simp
    next
      case (Some r)
      show ?thesis
      proof (cases r)
        case (Inl e)
        with unfolded Some y show ?thesis
          by (cases e) (auto simp: update_def)
      next
        case (Inr v)
        with mono Some have sv: "index s \<le> index v"
          by (auto intro: index_monotoneD)
        show ?thesis
        proof (cases "q v")
          case None
          with unfolded Some Inr show ?thesis by simp
        next
          case qv: (Some r')
          show ?thesis
          proof (cases r')
            case (Inl e)
            with unfolded Some Inr qv y sv show ?thesis
              by (cases e) (auto simp: update_def)
          next
            case sep: (Inr s2)
            with mono qv have "index v \<le> index s2"
              by (auto intro: index_monotoneD)
            moreover from unfolded Some Inr qv sep have "loop q p s2 (rs @ [result v]) = Some y"
              by simp
            from IH [OF this] mono y have "index s2 \<le> index s'"
              by simp
            ultimately show ?thesis using sv by simp
          qed
        qed
      qed
    qed
  qed
qed

lemma monotone_separated_by:
  "index_monotone p \<Longrightarrow> index_monotone q \<Longrightarrow> index_monotone (separated_by q p)"
  using separated_loop_monotone [of q p]
  by (auto simp: index_monotone_def separated_by_def)

lemma monotone_between:
  "index_monotone l \<Longrightarrow> index_monotone r \<Longrightarrow> index_monotone c \<Longrightarrow> index_monotone (between l r c)"
  unfolding between_def by (intro monotone_map_p monotone_sequence_of) simp

lemma monotone_lazy: "index_monotone (th ()) \<Longrightarrow> index_monotone (lazy th)"
  by (simp add: index_monotone_def lazy_def)

lemma monotone_uint_p: "index_monotone (uint_p n)"
  unfolding uint_p_def by (intro monotone_map_p monotone_sequence_of) (simp add: monotone_bit_p)

lemma monotone_int_p: "index_monotone (int_p n)"
  unfolding int_p_def by (intro monotone_map_p monotone_sequence_of) (simp add: monotone_bit_p)

lemma monotone_expect_byte: "expect_byte b v = Inr q \<Longrightarrow> index_monotone q"
  by (auto simp: expect_byte_def monotone_succeed monotone_fail split: if_splits val.splits)

lemma monotone_raw_string: "index_monotone (raw_string lit)"
proof -
  have "index_monotone (sequence_of (map (\<lambda>b. chain (uint_p 8) (expect_byte b)) (utf8_encode lit)))"
    by (intro monotone_sequence_of)
      (auto intro!: monotone_chain monotone_uint_p dest: monotone_expect_byte)
  then show ?thesis
    by (simp add: index_monotone_def raw_string_def)
qed

lemma monotone_letters: "index_monotone letters"
  unfolding letters_def by (intro monotone_map_p monotone_many1 monotone_letter)

lemma monotone_digits: "index_monotone digits"
  unfolding digits_def by (intro monotone_map_p monotone_many1 monotone_digit)

lemma monotone_options_step: "options_step v = Inr q \<Longrightarrow> index_monotone q"
proof -
  have seq: "index_monotone (sequence_of (replicate 8 (uint_p 8)))"
    by (intro monotone_sequence_of) (simp add: monotone_uint_p)
  have opt: "index_monotone (chain (sequence_of (replicate 8 (uint_p 8))) (append_options flds))" for flds
    by (intro monotone_chain seq) (auto simp: append_options_def monotone_succeed)
  assume "options_step v = Inr q"
  then show ?thesis
    by (auto simp: options_step_def opt monotone_succeed
        split: val.splits option.splits if_splits)
qed

lemma monotone_ipv4_header_parser: "index_monotone ipv4_header_parser"
  unfolding ipv4_header_parser_def
proof (intro monotone_chain monotone_sequence_of)
  show "\<forall>p\<in>set ipv4_fields. index_monotone p"
    by (simp add: ipv4_fields_def monotone_map_p monotone_uint_p)
  show "\<forall>v q. options_step v = Inr q \<longrightarrow> index_monotone q"
    using monotone_options_step by blast
qed

lemma update_obj_fresh:
  assumes "self < length h"
  shows "case update_obj h self i r of
           (h', a) \<Rightarrow> a = length h \<and> a \<noteq> self \<and> length h' = Suc (length h) \<and>
                      (\<forall>b<length h. h' ! b = h ! b) \<and> h' ! a = update (h ! self) i r"
  using assms by (auto simp: update_obj_def new_ParserState_def update_def nth_append)

text \<open>
  Claim C9. Every primitive and every grammar of the module returns a cursor whose index is
  at least the index of the cursor it was given, and every combinator does so when the
  parsers it is built from do (for \<open>chain\<close>: the parsers its function can return; for
  \<open>lazy\<close>: the parser its thunk returns). \<open>update\<close> builds a cursor from the receiver's source
  and the given index and result. On the object store, \<open>update\<close> allocates a new object at
  a fresh address and every object that existed before, the receiver included, is
  unchanged.
\<close>

theorem cursor_never_moves_back:
  "index_monotone bit_p \<and> index_monotone zero_p \<and> index_monotone one_p
   \<and> index_monotone (string_p t) \<and> index_monotone letter \<and> index_monotone digit
   \<and> index_monotone (succeed v) \<and> index_monotone (fail msg)
   \<and> index_monotone (uint_p n) \<and> index_monotone (int_p n) \<and> index_monotone (raw_string lit)
   \<and> index_monotone letters \<and> index_monotone digits \<and> index_monotone ipv4_header_parser
   \<and> (index_monotone p \<longrightarrow>
        index_monotone (map_p p f) \<and> index_monotone (error_map p g)
        \<and> index_monotone (many p) \<and> index_monotone (many1 p))
   \<and> (index_monotone p \<and> (\<forall>x q. k x = Inr q \<longrightarrow> index_monotone q) \<longrightarrow>
        index_monotone (chain p k))
   \<and> ((\<forall>q\<in>set ps. index_monotone q) \<longrightarrow>
        index_monotone (sequence_of ps) \<and> index_monotone (choice ps))
   \<and> (index_monotone p \<and> index_monotone sep \<longrightarrow> index_monotone (separated_by sep p))
   \<and> (index_monotone l \<and> index_monotone r \<and> index_monotone p \<longrightarrow>
        index_monotone (between l r p))
   \<and> (index_monotone (th ()) \<longrightarrow> index_monotone (lazy th))
   \<and> update s i res = \<lparr>source = source s, index = i, result = res\<rparr>
   \<and> (self < length h \<longrightarrow>
        (case update_obj h self i res of
           (h', a) \<Rightarrow> a = length h \<and> a \<noteq> self \<and> length h' = Suc (length h) \<and>
                      (\<forall>b<length h. h' ! b = h ! b) \<and> h' ! a = update (h ! self) i res))"
proof -
  have unary: "index_monotone p \<longrightarrow>
      index_monotone (map_p p f) \<and> index_monotone (error_map p g)
      \<and> index_monotone (many p) \<and> index_monotone (many1 p)"
    by (simp add: monotone_map_p monotone_error_map monotone_many monotone_many1)
  have bind: "index_monotone p \<and> (\<forall>x q. k x = Inr q \<longrightarrow> index_monotone q) \<longrightarrow>
      index_monotone (chain p k)"
    using monotone_chain [of p k] by blast
  have lists: "(\<forall>q\<in>set ps. index_monotone q) \<longrightarrow>
      index_monotone (sequence_of ps) \<and> index_monotone (choice ps)"
    by (simp add: monotone_sequence_of monotone_choice)
  have sepby: "index_monotone p \<and> index_monotone sep \<longrightarrow> index_monotone (separated_by sep p)"
    by (simp add: monotone_separated_by)
  have betw: "index_monotone l \<and> index_monotone r \<and> index_monotone p \<longrightarrow>
      index_monotone (between l r p)"
    by (simp add: monotone_between)
  have lz: "index_monotone (th ()) \<longrightarrow> index_monotone (lazy th)"
    by (simp add: monotone_lazy)
  have upd: "update s i res = \<lparr>source = source s, index = i, result = res\<rparr>"
    by (simp add: update_def)
  have store: "self < length h \<longrightarrow>
      (case update_obj h self i res of
         (h', a) \<Rightarrow> a = length h \<and> a \<noteq> self \<and> length h' = Suc (length h) \<and>
                    (\<forall>b<length h. h' ! b = h ! b) \<and> h' ! a = update (h ! self) i res)"
    using update_obj_fresh [of self h i res] by blast
  show ?thesis
    by (intro conjI monotone_bit_p monotone_zero_p monotone_one_p monotone_string_p
        monotone_letter monotone_digit monotone_succeed monotone_fail monotone_uint_p
        monotone_int_p monotone_raw_string monotone_letters monotone_digits
        monotone_ipv4_header_parser unary bind lists sepby betw lz upd store)
qed

theorem cursor_never_moves_back_witness:
  "(index_monotone one_p
   \<and> many one_p \<lparr>source = Bytes [0xC0], index = 0, result = VNone\<rparr> =
       Some (Inr \<lparr>source = Bytes [0xC0], index = 2, result = VList [VInt 1, VInt 1]\<rparr>)
   \<and> index \<lparr>source = Bytes [0xC0], index = 0, result = VNone\<rparr>
       \<le> index \<lparr>source = Bytes [0xC0], index = 2, result = VList [VInt 1, VInt 1]\<rparr>
   \<and> (0::nat) < length [\<lparr>source = Bytes [0xC0], index = 0, result = VNone\<rparr>]
   \<and> update_obj [\<lparr>source = Bytes [0xC0], index = 0, result = VNone\<rparr>] 0 1 (VInt 1) =
       ([\<lparr>source = Bytes [0xC0], index = 0, result = VNone\<rparr>,
         \<lparr>source = Bytes [0xC0], index = 1, result = VInt 1\<rparr>], 1))
   \<and> (index_monotone (chain (uint_p 8) (expect_byte 97))
   \<and> index_monotone (sequence_of [one_p, zero_p])
   \<and> index_monotone (choice [one_p, zero_p])
   \<and> index_monotone (separated_by zero_p one_p)
   \<and> index_monotone (between zero_p zero_p one_p)
   \<and> index_monotone (lazy (\<lambda>u. one_p))
   \<and> index_monotone (map_p one_p (tag ''bit'')))"
proof -
  have first: "index_monotone one_p
   \<and> many one_p \<lparr>source = Bytes [0xC0], index = 0, result = VNone\<rparr> =
       Some (Inr \<lparr>source = Bytes [0xC0], index = 2, result = VList [VInt 1, VInt 1]\<rparr>)
   \<and> index \<lparr>source = Bytes [0xC0], index = 0, result = VNone\<rparr>
       \<le> index \<lparr>source = Bytes [0xC0], index = 2, result = VList [VInt 1, VInt 1]\<rparr>
   \<and> (0::nat) < length [\<lparr>source = Bytes [0xC0], index = 0, result = VNone\<rparr>]
   \<and> update_obj [\<lparr>source = Bytes [0xC0], index = 0, result = VNone\<rparr>] 0 1 (VInt 1) =
       ([\<lparr>source = Bytes [0xC0], index = 0, result = VNone\<rparr>,
         \<lparr>source = Bytes [0xC0], index = 1, result = VInt 1\<rparr>], 1)"
  proof -
    let ?s0 = "\<lparr>source = Bytes [0xC0], index = 0, result = VNone\<rparr>"
    let ?s2 = "\<lparr>source = Bytes [0xC0], index = 2, result = VList [VInt 1, VInt 1]\<rparr>"
    note t = cursor_never_moves_back [where p = one_p and h = "[?s0]" and self = 0 and i = 1
        and res = "VInt 1"]
    from t have m1: "index_monotone one_p"
      by blast
    from t m1 have m2: "index_monotone (many one_p)"
      by blast
    have run: "many one_p ?s0 = Some (Inr ?s2)"
      by code_simp
    from m2 run have le: "index ?s0 \<le> index ?s2"
      by (rule index_monotoneD)
    have len: "(0::nat) < length [?s0]"
      by simp
    from t [THEN conjunct2, THEN conjunct2, THEN conjunct2, THEN conjunct2, THEN conjunct2,
           THEN conjunct2, THEN conjunct2, THEN conjunct2, THEN conjunct2, THEN conjunct2,
           THEN conjunct2, THEN conjunct2, THEN conjunct2, THEN conjunct2, THEN conjunct2,
           THEN conjunct2, THEN conjunct2, THEN conjunct2, THEN conjunct2, THEN conjunct2,
           THEN conjunct2] len
    have obj: "update_obj [?s0] 0 1 (VInt 1) =
        ([?s0, \<lparr>source = Bytes [0xC0], index = 1, result = VInt 1\<rparr>], 1)"
      by (simp add: update_obj_def new_ParserState_def)
    show ?thesis
      by (intro conjI m1 run le len obj)
  qed
  have second: "index_monotone (chain (uint_p 8) (expect_byte 97))
   \<and> index_monotone (sequence_of [one_p, zero_p])
   \<and> index_monotone (choice [one_p, zero_p])
   \<and> index_monotone (separated_by zero_p one_p)
   \<and> index_monotone (between zero_p zero_p one_p)
   \<and> index_monotone (lazy (\<lambda>u. one_p))
   \<and> index_monotone (map_p one_p (tag ''bit''))"
  proof -
    note atoms = cursor_never_moves_back [THEN conjunct1]
      cursor_never_moves_back [THEN conjunct2, THEN conjunct1]
      cursor_never_moves_back [THEN conjunct2, THEN conjunct2, THEN conjunct1]
    have one: "index_monotone one_p" and zero: "index_monotone zero_p"
      using atoms by blast+
    have bytes: "index_monotone (uint_p 8)"
      using cursor_never_moves_back [where n = 8] by blast
    have ret: "\<forall>x q. expect_byte 97 x = Inr q \<longrightarrow> index_monotone q"
    proof (intro allI impI)
      fix x q assume "expect_byte 97 x = Inr q"
      then have "q = succeed (VInt 97) \<or> (\<exists>m. q = fail m)"
        by (auto simp: expect_byte_def split: if_splits val.splits)
      then show "index_monotone q"
        using cursor_never_moves_back [where v = "VInt 97"] cursor_never_moves_back
        by (metis (no_types))
    qed
    have both: "\<forall>q\<in>set [one_p, zero_p]. index_monotone q"
      using one zero by simp
    have c1: "index_monotone (chain (uint_p 8) (expect_byte 97))"
      using cursor_never_moves_back [where p = "uint_p 8" and k = "expect_byte 97"] bytes ret
      by blast
    have c2: "index_monotone (sequence_of [one_p, zero_p])"
      and c3: "index_monotone (choice [one_p, zero_p])"
      using cursor_never_moves_back [where ps = "[one_p, zero_p]"] both by blast+
    have c4: "index_monotone (separated_by zero_p one_p)"
      using cursor_never_moves_back [where p = one_p and sep = zero_p] one zero by blast
    have c5: "index_monotone (between zero_p zero_p one_p)"
      using cursor_never_moves_back [where p = one_p and l = zero_p and r = zero_p] one zero
      by blast
    have c6: "index_monotone (lazy (\<lambda>u. one_p))"
      using cursor_never_moves_back [where th = "\<lambda>u. one_p"] one by blast
    have c7: "index_monotone (map_p one_p (tag ''bit''))"
      using cursor_never_moves_back [where p = one_p and f = "tag ''bit''"] one by blast
    show ?thesis
      by (intro conjI c1 c2 c3 c4 c5 c6 c7)
  qed
  from first second show ?thesis
    by (rule conjI)
qed

end
